theory Spec2Isabelle
  imports Complex_Main "HOL-Library.Word" "HOL-Library.AList"
begin

section \<open>Strings\<close>

text \<open>
  A JavaScript string is a sequence of 16-bit UTF-16 code units; \<open>length\<close>, \<open>slice\<close>,
  \<open>split\<close> and \<open>trim\<close> count and cut code units, while a regular expression
  with the \<open>u\<close> flag walks the string by code points (a high surrogate followed by a low
  surrogate is one code point).
\<close>

type_synonym cu = "16 word"
type_synonym jstring = "cu list"

text \<open>An ASCII literal as a JavaScript string.\<close>

definition js :: "string \<Rightarrow> jstring" where
  "js s = map (\<lambda>c. of_nat (of_char c)) s"

definition is_high_surrogate :: "cu \<Rightarrow> bool" where
  "is_high_surrogate c = (0xD800 \<le> c \<and> c \<le> 0xDBFF)"

definition is_low_surrogate :: "cu \<Rightarrow> bool" where
  "is_low_surrogate c = (0xDC00 \<le> c \<and> c \<le> 0xDFFF)"

definition pair_code_point :: "cu \<Rightarrow> cu \<Rightarrow> nat" where
  "pair_code_point h l = 0x10000 + (unat h - 0xD800) * 0x400 + (unat l - 0xDC00)"

text \<open>
  The character class \<open>\s\<close> and \<open>String.prototype.trim\<close> use the same set: ECMAScript's
  WhiteSpace (TAB, VT, FF, SP, NBSP, ZWNBSP and the category Zs) and LineTerminator
  (LF, CR, LS, PS). All of them are single code units.
\<close>

definition is_js_space :: "cu \<Rightarrow> bool" where
  "is_js_space c =
     (c = 0x09 \<or> c = 0x0A \<or> c = 0x0B \<or> c = 0x0C \<or> c = 0x0D \<or> c = 0x20 \<or> c = 0xA0
      \<or> c = 0x1680 \<or> (0x2000 \<le> c \<and> c \<le> 0x200A) \<or> c = 0x2028 \<or> c = 0x2029
      \<or> c = 0x202F \<or> c = 0x205F \<or> c = 0x3000 \<or> c = 0xFEFF)"

text \<open>
  The Unicode data of the JavaScript engine is not part of the repository: the case
  mapping behind \<open>toLowerCase\<close> (which maps whole strings: it is context sensitive and may
  change the length) and the general categories P (punctuation) and S (symbol) behind
  \<open>\p{P}\<close> and \<open>\p{S}\<close>, a predicate on code points. They are parameters of the model.
\<close>

record unicode =
  toLowerCase :: "jstring \<Rightarrow> jstring"
  punct_or_symbol :: "nat \<Rightarrow> bool"

text \<open>
  \<open>s.split(re)\<close> for a regular expression \<open>re\<close> that matches a run of at least \<open>k\<close>
  code units of the class \<open>P\<close>, greedily (\<open>/\s+/\<close> is the class \<open>\s\<close> with \<open>k = 1\<close>,
  \<open>/\n\n+/\<close> the class \<open>{LF}\<close> with \<open>k = 2\<close>): the pieces between the matches, among
  them the empty pieces before a leading and after a trailing match; the empty string
  gives one empty piece.
\<close>

function split_runs :: "(cu \<Rightarrow> bool) \<Rightarrow> nat \<Rightarrow> jstring \<Rightarrow> jstring list" where
  "split_runs P k [] = [[]]"
| "split_runs P k (c # cs) =
     (if P c \<and> k \<le> Suc (length (takeWhile P cs))
      then [] # split_runs P k (dropWhile P cs)
      else (case split_runs P k cs of
              [] \<Rightarrow> [[c]]
            | w # ws \<Rightarrow> (c # w) # ws))"
  by pat_completeness auto
termination
  by (relation "measure (\<lambda>(P, k, s). length s)")
     (auto simp: less_Suc_eq_le length_dropWhile_le)

text \<open>
  \<open>s.replace(/[\p{P}\p{S}]/gu, ' ')\<close>: every code point of category P or S becomes one
  space; a surrogate pair is one code point, an unpaired surrogate is a code point of
  its own.
\<close>

fun replace_ps :: "unicode \<Rightarrow> jstring \<Rightarrow> jstring" where
  "replace_ps U [] = []"
| "replace_ps U [c] = [if punct_or_symbol U (unat c) then 0x20 else c]"
| "replace_ps U (h # l # rest) =
     (if is_high_surrogate h \<and> is_low_surrogate l
      then (if punct_or_symbol U (pair_code_point h l)
            then 0x20 # replace_ps U rest
            else h # l # replace_ps U rest)
      else (if punct_or_symbol U (unat h) then 0x20 else h) # replace_ps U (l # rest))"

section \<open>Tokenizer\<close>

text \<open>
  \<^verbatim>\<open>
  function tokenize(text) {
    return text.toLowerCase().replace(/[\p{P}\p{S}]/gu, ' ').split(/\s+/).filter(Boolean);
  }
  \<close>
  An empty string is the only falsy string, so \<open>filter(Boolean)\<close> drops the empty pieces.
\<close>

definition tokenize :: "unicode \<Rightarrow> jstring \<Rightarrow> jstring list" where
  "tokenize U text =
     filter (\<lambda>w. w \<noteq> []) (split_runs is_js_space 1 (replace_ps U (toLowerCase U text)))"

text \<open>
  The ASCII part of the Unicode data, which every engine shares: the upper-case letters
  \<open>A\<close> to \<open>Z\<close> map to \<open>a\<close> to \<open>z\<close>, and the code points of category P or S below
  128 are the 32 printable characters that are neither letters, digits nor the space.
\<close>

definition ascii_lower :: "cu \<Rightarrow> cu" where
  "ascii_lower c = (if 0x41 \<le> c \<and> c \<le> 0x5A then c + 0x20 else c)"

definition ascii_ps :: "nat \<Rightarrow> bool" where
  "ascii_ps cp =
     ((0x21 \<le> cp \<and> cp \<le> 0x2F) \<or> (0x3A \<le> cp \<and> cp \<le> 0x40)
      \<or> (0x5B \<le> cp \<and> cp \<le> 0x60) \<or> (0x7B \<le> cp \<and> cp \<le> 0x7E))"

definition is_ascii :: "jstring \<Rightarrow> bool" where
  "is_ascii s = list_all (\<lambda>c. c < 0x80) s"

definition agrees_on_ascii :: "unicode \<Rightarrow> bool" where
  "agrees_on_ascii U =
     ((\<forall>s. is_ascii s \<longrightarrow> toLowerCase U s = map ascii_lower s)
      \<and> (\<forall>cp. cp < 0x80 \<longrightarrow> punct_or_symbol U cp = ascii_ps cp))"

text \<open>Unicode data that is right on ASCII text and leaves every other code unit alone.\<close>

definition ascii_tables :: unicode where
  "ascii_tables = \<lparr>toLowerCase = map ascii_lower, punct_or_symbol = ascii_ps\<rparr>"

section \<open>Index builder\<close>

text \<open>
  A \<open>Map\<close> from terms to counts keeps its keys in insertion order: an association list
  with distinct keys. \<open>m.get(t) || 0\<close> reads a count, with 0 for a missing key, and
  \<open>m.set(t, (m.get(t) || 0) + 1)\<close> overwrites the entry in place or appends a new one.
  Counts are non-negative integers far below \<open>2^53\<close>, where JavaScript numbers are exact.
\<close>

type_synonym counts = "(jstring \<times> nat) list"

definition get0 :: "counts \<Rightarrow> jstring \<Rightarrow> nat" where
  "get0 m t = (case map_of m t of None \<Rightarrow> 0 | Some n \<Rightarrow> n)"

definition bump :: "counts \<Rightarrow> jstring \<Rightarrow> counts" where
  "bump m t = AList.update t (get0 m t + 1) m"

text \<open>\<^verbatim>\<open>for (const t of ts) counts.set(t, (counts.get(t) || 0) + 1);\<close> on a new map.\<close>

definition count_terms :: "jstring list \<Rightarrow> counts" where
  "count_terms ts = foldl bump [] ts"

record chunk =
  chunk_id :: jstring
  chunk_text :: jstring
  chunk_title :: jstring
  chunk_date :: jstring
  chunk_url :: jstring

record index =
  items :: "chunk list"
  df :: counts
  tf :: "counts list"
  N :: nat

text \<open>
  \<^verbatim>\<open>
  function buildIndex(items) {
    const df = new Map();
    const tf = items.map(item => {
      const counts = new Map();
      for (const t of tokenize(item.text)) counts.set(t, (counts.get(t) || 0) + 1);
      for (const term of counts.keys()) df.set(term, (df.get(term) || 0) + 1);
      return counts;
    });
    const N = items.length;
    return { items, df, tf, N };
  }
  \<close>
  \<open>index_items\<close> is the \<open>items.map\<close> callback run over the chunks in order; the shared
  table \<open>df\<close> that the callback mutates is passed along.
\<close>

fun index_items :: "unicode \<Rightarrow> chunk list \<Rightarrow> counts \<Rightarrow> counts list \<times> counts" where
  "index_items U [] d = ([], d)"
| "index_items U (item # rest) d =
     (let cnts = count_terms (tokenize U (chunk_text item));
          d' = foldl bump d (map fst cnts);
          (tfs, d'') = index_items U rest d'
      in (cnts # tfs, d''))"

definition buildIndex :: "unicode \<Rightarrow> chunk list \<Rightarrow> index" where
  "buildIndex U its =
     (let (tfs, d) = index_items U its []
      in \<lparr>items = its, df = d, tf = tfs, N = length its\<rparr>)"

section \<open>Scorer\<close>

text \<open>
  JavaScript numbers are IEEE doubles. This section computes the scores in the real
  numbers, with \<open>Math.log\<close> as the natural logarithm; the next section computes them
  with the rounding and the logarithm of the engine.

  Reading \<open>index.tf[i]\<close> beyond the end of the array gives \<open>undefined\<close>, and the call
  \<open>undefined.get(term)\<close> throws a TypeError. The exceptions of the program are the
  built-in \<open>TypeError\<close> and \<open>SyntaxError\<close> (their messages are the engine's and are not
  modelled) and \<open>new Error(message)\<close>.
\<close>

datatype js_error =
    TypeError
  | SyntaxError
  | Error jstring

text \<open>
  The body of the \<open>items.map\<close> callback in \<open>score\<close>: the loop over the entries of
  \<open>qCounts\<close>, with the running sum \<open>s\<close>.
  \<^verbatim>\<open>
  for (const [term, qtf] of qCounts.entries()) {
    const df = index.df.get(term) || 0;
    if (df === 0) continue;
    const idf = Math.log((index.N + 1) / (df + 0.5));
    const tf = index.tf[i].get(term) || 0;
    s += (qtf * (1 + Math.log(1 + tf))) * idf;
  }
  \<close>
\<close>

fun chunk_score :: "index \<Rightarrow> nat \<Rightarrow> counts \<Rightarrow> real \<Rightarrow> js_error + real" where
  "chunk_score idx i [] s = Inr s"
| "chunk_score idx i ((term, qtf) # rest) s =
     (let d = get0 (df idx) term in
      if d = 0 then chunk_score idx i rest s
      else
        let idf = ln ((real (N idx) + 1) / (real d + 1 / 2)) in
        if i < length (tf idx)
        then
          let f = get0 (tf idx ! i) term
          in chunk_score idx i rest (s + (real qtf * (1 + ln (1 + real f))) * idf)
        else Inl TypeError)"

text \<open>
  \<open>index.items.map((it, i) => ...)\<close>: the pairs \<open>{ i, s }\<close> for the positions \<open>is\<close>, in
  order; an exception in the callback ends the whole call.
\<close>

fun chunk_scores :: "index \<Rightarrow> counts \<Rightarrow> nat list \<Rightarrow> js_error + (nat \<times> real) list" where
  "chunk_scores idx qCounts [] = Inr []"
| "chunk_scores idx qCounts (i # is) =
     (case chunk_score idx i qCounts 0 of
        Inl e \<Rightarrow> Inl e
      | Inr s \<Rightarrow>
          (case chunk_scores idx qCounts is of
             Inl e \<Rightarrow> Inl e
           | Inr r \<Rightarrow> Inr ((i, s) # r)))"

text \<open>
  \<open>xs.slice(0, k)\<close> for an integer \<open>k\<close>: a negative \<open>k\<close> counts from the end.
\<close>

definition slice0 :: "'a list \<Rightarrow> int \<Rightarrow> 'a list" where
  "slice0 xs k = (if k < 0 then take (nat (int (length xs) + k)) xs else take (nat k) xs)"

record scored_chunk = chunk +
  score_value :: real

text \<open>\<open>{ ...c, score: s }\<close>: the fields of the chunk \<open>c\<close> and the score \<open>s\<close>.\<close>

definition with_score :: "chunk \<Rightarrow> real \<Rightarrow> scored_chunk" where
  "with_score c s =
     \<lparr>chunk_id = chunk_id c, chunk_text = chunk_text c, chunk_title = chunk_title c,
      chunk_date = chunk_date c, chunk_url = chunk_url c, score_value = s\<rparr>"

text \<open>
  The first part of \<open>score\<close>, up to the sorted array \<open>scores\<close>.
  \<open>scores.sort((a, b) => b.s - a.s)\<close> sorts by descending \<open>s\<close>, and
  \<open>Array.prototype.sort\<close> is stable: \<open>sort_key\<close> on the key \<open>- s\<close>.
\<close>

definition ranking :: "unicode \<Rightarrow> jstring \<Rightarrow> index \<Rightarrow> js_error + (nat \<times> real) list" where
  "ranking U query idx =
     (let qCounts = count_terms (tokenize U query) in
      case chunk_scores idx qCounts [0..<length (items idx)] of
        Inl e \<Rightarrow> Inl e
      | Inr scores \<Rightarrow> Inr (sort_key (\<lambda>(i, s). - s) scores))"

text \<open>
  \<^verbatim>\<open>
  function score(query, index, topK = 8) {
    ...
    scores.sort((a, b) => b.s - a.s);
    return scores.slice(0, topK).map(({ i, s }) => ({ ...index.items[i], score: s }));
  }
  \<close>
\<close>

definition score :: "unicode \<Rightarrow> jstring \<Rightarrow> index \<Rightarrow> int \<Rightarrow> js_error + scored_chunk list" where
  "score U query idx topK =
     (case ranking U query idx of
        Inl e \<Rightarrow> Inl e
      | Inr scores \<Rightarrow> Inr (map (\<lambda>(i, s). with_score (items idx ! i) s) (slice0 scores topK)))"

section \<open>Scorer, with the numbers of the engine\<close>

text \<open>
  A JavaScript number is an IEEE double; a finite double is the real number that it
  denotes. Each of \<open>+\<close>, \<open>*\<close> and \<open>/\<close> returns the exact result rounded to a double, and
  \<open>Math.log\<close> returns an approximation of the logarithm that the engine chooses. The
  rounding \<open>rnd\<close> and the logarithm \<open>flog\<close> of the engine are parameters of the scorer
  below; counts are small integers, which are doubles. The scores of the program are far
  from the largest double and are never \<open>NaN\<close>, so infinities and \<open>NaN\<close> are left out.
\<close>

record arith =
  rnd :: "real \<Rightarrow> real"
  flog :: "real \<Rightarrow> real"

text \<open>Exact arithmetic: nothing is rounded, and the logarithm is the natural logarithm.\<close>

definition exact :: arith where
  "exact = \<lparr>rnd = (\<lambda>x. x), flog = ln\<rparr>"

text \<open>
  The loop over the entries of \<open>qCounts\<close> once more, every operation of lines 62 to 66
  with its rounding: \<open>(index.N + 1) / (df + 0.5)\<close>, \<open>Math.log\<close>, \<open>1 + tf\<close>,
  \<open>1 + Math.log(1 + tf)\<close>, \<open>qtf * (...)\<close>, \<open>(...) * idf\<close> and \<open>s += ...\<close>.
\<close>

fun chunk_score_in :: "arith \<Rightarrow> index \<Rightarrow> nat \<Rightarrow> counts \<Rightarrow> real \<Rightarrow> js_error + real" where
  "chunk_score_in A idx i [] s = Inr s"
| "chunk_score_in A idx i ((term, qtf) # rest) s =
     (let d = get0 (df idx) term in
      if d = 0 then chunk_score_in A idx i rest s
      else
        let idf = flog A (rnd A (rnd A (real (N idx) + 1) / rnd A (real d + 1 / 2))) in
        if i < length (tf idx)
        then
          let f = get0 (tf idx ! i) term
          in chunk_score_in A idx i rest
               (rnd A (s + rnd A (rnd A (real qtf * rnd A (1 + flog A (rnd A (1 + real f)))) * idf)))
        else Inl TypeError)"

fun chunk_scores_in :: "arith \<Rightarrow> index \<Rightarrow> counts \<Rightarrow> nat list \<Rightarrow> js_error + (nat \<times> real) list" where
  "chunk_scores_in A idx qCounts [] = Inr []"
| "chunk_scores_in A idx qCounts (i # is) =
     (case chunk_score_in A idx i qCounts 0 of
        Inl e \<Rightarrow> Inl e
      | Inr s \<Rightarrow>
          (case chunk_scores_in A idx qCounts is of
             Inl e \<Rightarrow> Inl e
           | Inr r \<Rightarrow> Inr ((i, s) # r)))"

text \<open>
  The comparator \<open>(a, b) => b.s - a.s\<close> returns a rounded difference, whose sign is the
  sign of the exact difference (two different doubles have a difference that does not
  round to 0): the sort is the stable sort by descending \<open>s\<close>, whatever the rounding is.
\<close>

definition ranking_in :: "arith \<Rightarrow> unicode \<Rightarrow> jstring \<Rightarrow> index \<Rightarrow> js_error + (nat \<times> real) list" where
  "ranking_in A U query idx =
     (let qCounts = count_terms (tokenize U query) in
      case chunk_scores_in A idx qCounts [0..<length (items idx)] of
        Inl e \<Rightarrow> Inl e
      | Inr scores \<Rightarrow> Inr (sort_key (\<lambda>(i, s). - s) scores))"

text \<open>
  \<open>score\<close> with the numbers of the engine; the function \<open>score\<close> above is \<open>score_in exact\<close>.
\<close>

definition score_in ::
  "arith \<Rightarrow> unicode \<Rightarrow> jstring \<Rightarrow> index \<Rightarrow> int \<Rightarrow> js_error + scored_chunk list"
where
  "score_in A U query idx topK =
     (case ranking_in A U query idx of
        Inl e \<Rightarrow> Inl e
      | Inr scores \<Rightarrow> Inr (map (\<lambda>(i, s). with_score (items idx ! i) s) (slice0 scores topK)))"

section \<open>Corpus loader\<close>

text \<open>
  \<open>`${n}`\<close> for a non-negative integer \<open>n\<close>: its decimal digits.
\<close>

fun js_decimal :: "nat \<Rightarrow> jstring" where
  "js_decimal n =
     (if n < 10 then [of_nat (48 + n)]
      else js_decimal (n div 10) @ [of_nat (48 + n mod 10)])"

declare js_decimal.simps [simp del]

definition starts_with :: "jstring \<Rightarrow> jstring \<Rightarrow> bool" where
  "starts_with s p = (take (length p) s = p)"

fun includes_str :: "jstring \<Rightarrow> jstring \<Rightarrow> bool" where
  "includes_str [] sub = (sub = [])"
| "includes_str (c # cs) sub = (starts_with (c # cs) sub \<or> includes_str cs sub)"

definition trim :: "jstring \<Rightarrow> jstring" where
  "trim s = rev (dropWhile is_js_space (rev (dropWhile is_js_space s)))"

text \<open>
  What the network answers is outside the program: \<open>fetch(p)\<close> either rejects or
  resolves to a response, of which the code reads \<open>ok\<close>, \<open>status\<close>, \<open>statusText\<close>, the
  \<open>content-type\<close> header (\<open>null\<close> when absent) and the body text (reading it may reject
  too). \<open>JSON.parse\<close> is the engine's; it is a parameter, with the type of the parsed value.
\<close>

record response =
  ok :: bool
  status :: nat
  statusText :: jstring
  content_type :: "jstring option"
  body_text :: "js_error + jstring"

text \<open>
  The body of the \<open>try\<close> block, for one candidate path:
  \<^verbatim>\<open>
  const res = await fetch(p, { cache: 'no-store' });
  if (!res.ok) throw new Error(`${res.status} ${res.statusText}`);
  const ct = res.headers.get('content-type') || '';
  const text = await res.text();
  if (!ct.includes('application/json') && text.trim().startsWith('<')) {
    throw new Error('Received HTML instead of JSON');
  }
  return JSON.parse(text);
  \<close>
\<close>

definition attempt ::
  "(jstring \<Rightarrow> js_error + response) \<Rightarrow> (jstring \<Rightarrow> js_error + 'j) \<Rightarrow> jstring \<Rightarrow> js_error + 'j"
where
  "attempt fetch parse p =
     (case fetch p of
        Inl e \<Rightarrow> Inl e
      | Inr res \<Rightarrow>
          if \<not> ok res then Inl (Error (js_decimal (status res) @ js '' '' @ statusText res))
          else
            let ct = (case content_type res of None \<Rightarrow> [] | Some c \<Rightarrow> c) in
            (case body_text res of
               Inl e \<Rightarrow> Inl e
             | Inr text \<Rightarrow>
                 if \<not> includes_str ct (js ''application/json'') \<and> starts_with (trim text) (js ''<'')
                 then Inl (Error (js ''Received HTML instead of JSON''))
                 else parse text))"

text \<open>
  The loop of \<open>fetchJsonWithFallback\<close> with its variable \<open>lastErr\<close> (\<open>None\<close> for \<open>null\<close>):
  \<^verbatim>\<open>
  let lastErr = null;
  for (const p of paths) {
    try { ...; return JSON.parse(text); } catch (e) { lastErr = e; }
  }
  throw lastErr || new Error('All fetch attempts failed');
  \<close>
\<close>

fun fetch_loop ::
  "(jstring \<Rightarrow> js_error + response) \<Rightarrow> (jstring \<Rightarrow> js_error + 'j) \<Rightarrow> js_error option \<Rightarrow>
   jstring list \<Rightarrow> js_error + 'j"
where
  "fetch_loop fetch parse lastErr [] =
     Inl (case lastErr of None \<Rightarrow> Error (js ''All fetch attempts failed'') | Some e \<Rightarrow> e)"
| "fetch_loop fetch parse lastErr (p # ps) =
     (case attempt fetch parse p of
        Inr data \<Rightarrow> Inr data
      | Inl e \<Rightarrow> fetch_loop fetch parse (Some e) ps)"

definition fetchJsonWithFallback ::
  "(jstring \<Rightarrow> js_error + response) \<Rightarrow> (jstring \<Rightarrow> js_error + 'j) \<Rightarrow> jstring list \<Rightarrow> js_error + 'j"
where
  "fetchJsonWithFallback fetch parse paths = fetch_loop fetch parse None paths"

text \<open>
  The corpus file, in the shape the spec gives it: two optional arrays of records, a
  record (or \<open>null\<close>) with an optional \<open>metadata\<close> object and an optional \<open>transcription\<close>;
  every field that is present is a string. \<open>None\<close> stands for a missing, \<open>null\<close> or
  \<open>undefined\<close> value, which is what the optional chaining \<open>t?.metadata?.title\<close> yields.
\<close>

record metadata_json =
  title :: "jstring option"
  record_date :: "jstring option"
  estimated_date :: "jstring option"
  url :: "jstring option"

record record_json =
  metadata :: "metadata_json option"
  transcription :: "jstring option"

record corpus_json =
  transcriptions :: "record_json option list option"
  videos :: "record_json option list option"

text \<open>\<open>v || d\<close> for an optional string \<open>v\<close>: the empty string is falsy.\<close>

definition or_else :: "jstring option \<Rightarrow> jstring \<Rightarrow> jstring" where
  "or_else v d = (case v of None \<Rightarrow> d | Some s \<Rightarrow> if s = [] then d else s)"

text \<open>\<open>t?.metadata?.f\<close>\<close>

definition meta_field :: "record_json option \<Rightarrow> (metadata_json \<Rightarrow> jstring option) \<Rightarrow> jstring option" where
  "meta_field t f = (case t of None \<Rightarrow> None | Some r \<Rightarrow> (case metadata r of None \<Rightarrow> None | Some m \<Rightarrow> f m))"

definition text_field :: "record_json option \<Rightarrow> jstring option" where
  "text_field t = (case t of None \<Rightarrow> None | Some r \<Rightarrow> transcription r)"

text \<open>\<open>text.split(/\n\n+/).filter(Boolean)\<close>\<close>

definition paragraphs :: "jstring \<Rightarrow> jstring list" where
  "paragraphs text = filter (\<lambda>p. p \<noteq> []) (split_runs (\<lambda>c. c = 0x0A) 2 text)"

text \<open>
  \<^verbatim>\<open>
  parts.forEach((p, idx) => {
    items.push({ id: `${url}#p${idx}`, text: p.slice(0, 2000), title, date, url });
  });
  \<close>
\<close>

definition push_parts :: "jstring \<Rightarrow> jstring \<Rightarrow> jstring \<Rightarrow> jstring list \<Rightarrow> chunk list" where
  "push_parts ttl dt u parts =
     map (\<lambda>(idx, p).
            \<lparr>chunk_id = u @ js ''#p'' @ js_decimal idx, chunk_text = take 2000 p,
             chunk_title = ttl, chunk_date = dt, chunk_url = u\<rparr>)
         (enumerate 0 parts)"

text \<open>The body of the loop over \<open>data.transcriptions\<close>, and of the one over \<open>data.videos\<close>.\<close>

definition transcription_chunks :: "record_json option \<Rightarrow> chunk list" where
  "transcription_chunks t =
     (let ttl = or_else (meta_field t title) (js ''Untitled'');
          dt = or_else (meta_field t record_date) (or_else (meta_field t estimated_date) []);
          u = or_else (meta_field t url) [];
          text = or_else (text_field t) []
      in if text = [] then [] else push_parts ttl dt u (paragraphs text))"

definition video_chunks :: "record_json option \<Rightarrow> chunk list" where
  "video_chunks v =
     (let ttl = or_else (meta_field v title) (js ''Untitled'');
          dt = or_else (meta_field v estimated_date) [];
          u = or_else (meta_field v url) [];
          text = or_else (text_field v) []
      in if text = [] then [] else push_parts ttl dt u (paragraphs text))"

text \<open>Lines 101 to 127 of \<open>loadData\<close>: the array \<open>items\<close> built from the parsed file.\<close>

definition loadData_items :: "corpus_json \<Rightarrow> chunk list" where
  "loadData_items data =
     (case transcriptions data of None \<Rightarrow> [] | Some ts \<Rightarrow> concat (map transcription_chunks ts))
     @ (case videos data of None \<Rightarrow> [] | Some vs \<Rightarrow> concat (map video_chunks vs))"

section \<open>Retrieval orchestrator\<close>

text \<open>
  The page keeps \<open>docs\<close> and \<open>index\<close> in two variables (\<open>index\<close> starts as \<open>null\<close>),
  appends messages to the chat area through \<open>addMsg(role, text, meta)\<close>, and reads the
  query from the input field \<open>queryInput\<close>, whose value is a part of the state. The fixed Japanese
  wording of the bot's messages is presentation; each message text is a constructor:
  \<^item> \<open>Plain\<close>: a text shown as it is (the user's query, the relay's answer);
  \<^item> \<open>Loaded n\<close>: the corpus was loaded, with \<open>n\<close> chunks;
  \<^item> \<open>LoadFailed e\<close>: loading the corpus failed with \<open>e\<close>;
  \<^item> \<open>IndexNotBuilt\<close>: the index is not built, reload the page;
  \<^item> \<open>RelayEmpty\<close>: the relay answered with no text;
  \<^item> \<open>RelayFailed e\<close>: the relay call failed with \<open>e\<close>;
  \<^item> \<open>Prompt stitched\<close>: the instruction template around the stitched passages.
\<close>

datatype role = User | Bot

datatype msg_text =
    Plain jstring
  | Loaded nat
  | LoadFailed js_error
  | IndexNotBuilt
  | RelayEmpty
  | RelayFailed js_error
  | Prompt jstring

record message =
  msg_role :: role
  msg_body :: msg_text
  msg_meta :: "jstring option"

record session =
  docs :: "chunk list"
  index :: "index option"
  chat :: "message list"
  queryInput :: jstring

definition initial :: session where
  "initial = \<lparr>docs = [], index = None, chat = [], queryInput = []\<rparr>"

definition addMsg :: "session \<Rightarrow> role \<Rightarrow> msg_text \<Rightarrow> jstring option \<Rightarrow> session" where
  "addMsg st r t m = st\<lparr>chat := chat st @ [\<lparr>msg_role = r, msg_body = t, msg_meta = m\<rparr>]\<rparr>"

text \<open>
  \<^verbatim>\<open>
  async function loadData() {
    try {
      const data = await fetchJsonWithFallback(['./real_transcriptions.json', '../real_transcriptions.json']);
      const items = [];
      ...
      docs = items;
      index = buildIndex(items);
      addMsg('bot', ...items.length...);
    } catch (e) {
      addMsg('bot', ...e...);
    }
  }
  \<close>
\<close>

definition loadData ::
  "unicode \<Rightarrow> (jstring \<Rightarrow> js_error + response) \<Rightarrow> (jstring \<Rightarrow> js_error + corpus_json) \<Rightarrow>
   session \<Rightarrow> session"
where
  "loadData U fetch parse st =
     (case fetchJsonWithFallback fetch parse
             [js ''./real_transcriptions.json'', js ''../real_transcriptions.json''] of
        Inl e \<Rightarrow> addMsg st Bot (LoadFailed e) None
      | Inr data \<Rightarrow>
          let its = loadData_items data
          in addMsg (st\<lparr>docs := its, index := Some (buildIndex U its)\<rparr>) Bot (Loaded (length its)) None)"

text \<open>\<open>parts.join(sep)\<close>\<close>

fun join :: "jstring \<Rightarrow> jstring list \<Rightarrow> jstring" where
  "join sep [] = []"
| "join sep [x] = x"
| "join sep (x # y # ys) = x @ sep @ join sep (y # ys)"

text \<open>
  The submit handler. The relay (\<open>callRelay\<close>, a POST to a remote endpoint) is outside the
  retrieval core: it is the parameter \<open>relay\<close>, which fails, returns \<open>null\<close> (no endpoint
  is configured) or returns the answer text; \<open>useLlm\<close> is the state of the check box.
  Besides the new state the model returns the calls of \<open>score\<close> that the handler makes,
  as the list of their arguments. The test of \<open>index\<close> and the call of \<open>score\<close> run without
  a suspension between them; the handler is modelled as one step, the wait for the relay
  included.
  \<^verbatim>\<open>
  const q = queryInput.value.trim();
  if (!q) return;
  addMsg('user', q);
  queryInput.value = '';
  if (!index) {
    addMsg('bot', '...');
    return;
  }
  const top = score(q, index, 8);
  const refText = top.slice(0, 3).map(t => `${t.title} (${t.date})`).join(' / ');
  if (useLlm.checked) {
    try {
      const answer = await callRelay(q, top);
      addMsg('bot', answer || '...', `...: ${refText}`);
    } catch (e) {
      addMsg('bot', `...: ${e}`, `...: ${refText}`);
    }
  } else {
    const stitched = top.map(t => `[${t.title} ${t.date}]\n${t.text}`).join('\n\n');
    addMsg('bot', template, `...: ${refText}`);
  }
  \<close>
  The brackets around title and date are U+3010 and U+3011, and the reference label
  starts with U+53C2 U+7167. An exception of \<open>score\<close> is not caught: the handler stops.
  The variable \<open>top\<close> is \<open>top_k\<close> here.
\<close>

definition submit ::
  "unicode \<Rightarrow> (jstring \<Rightarrow> scored_chunk list \<Rightarrow> js_error + jstring option) \<Rightarrow> session \<Rightarrow>
   bool \<Rightarrow> session \<times> (jstring \<times> index \<times> int) list"
where
  "submit U relay st useLlm =
     (let q = trim (queryInput st) in
      if q = [] then (st, [])
      else
        let st1 = (addMsg st User (Plain q) None)\<lparr>queryInput := []\<rparr> in
        case index st1 of
          None \<Rightarrow> (addMsg st1 Bot IndexNotBuilt None, [])
        | Some idx \<Rightarrow>
            (case score U q idx 8 of
               Inl e \<Rightarrow> (st1, [(q, idx, 8)])
             | Inr top_k \<Rightarrow>
                 let refText =
                       join (js '' / '')
                         (map (\<lambda>t. chunk_title t @ js '' ('' @ chunk_date t @ js '')'') (take 3 top_k));
                     ref = Some ([0x53C2, 0x7167] @ js '': '' @ refText)
                 in
                 if useLlm then
                   (case relay q top_k of
                      Inl e \<Rightarrow> (addMsg st1 Bot (RelayFailed e) ref, [(q, idx, 8)])
                    | Inr answer \<Rightarrow>
                        (addMsg st1 Bot
                           (case answer of
                              None \<Rightarrow> RelayEmpty
                            | Some a \<Rightarrow> if a = [] then RelayEmpty else Plain a)
                           ref,
                         [(q, idx, 8)]))
                 else
                   let stitched =
                         join [0x0A, 0x0A]
                           (map (\<lambda>t. [0x3010] @ chunk_title t @ js '' '' @ chunk_date t
                                      @ [0x3011, 0x0A] @ chunk_text t) top_k)
                   in (addMsg st1 Bot (Prompt stitched) ref, [(q, idx, 8)])))"

text \<open>
  The states of a page session: the initial state, and every state after the user has
  typed into the input field, after a run of \<open>loadData\<close> or after a run of the submit
  handler, whatever the network, the parser, the relay and the user's input are.
\<close>

inductive reachable :: "unicode \<Rightarrow> session \<Rightarrow> bool" for U :: unicode where
  start: "reachable U initial"
| typed: "reachable U st \<Longrightarrow> reachable U (st\<lparr>queryInput := input\<rparr>)"
| loaded: "reachable U st \<Longrightarrow> reachable U (loadData U fetch parse st)"
| submitted: "reachable U st \<Longrightarrow> reachable U (fst (submit U relay st useLlm))"

section \<open>The specification's formulas\<close>

text \<open>
  The scoring formula in the specification's words: \<open>idf(t) = ln((N + 1) / (df[t] + 0.5))\<close>,
  \<open>weight(t, i) = qtf[t] * (1 + ln(1 + tf[i][t]))\<close>, and the score of chunk \<open>i\<close> is the sum
  of \<open>weight(t, i) * idf(t)\<close> over the distinct query terms \<open>t\<close> whose document frequency
  is not zero. \<open>qs\<close> is the token sequence of the query, so \<open>qtf[t]\<close> is the number of
  occurrences of \<open>t\<close> in \<open>qs\<close>.
\<close>

definition spec_idf :: "index \<Rightarrow> jstring \<Rightarrow> real" where
  "spec_idf idx t = ln ((real (N idx) + 1) / (real (get0 (df idx) t) + 1 / 2))"

definition spec_weight :: "index \<Rightarrow> jstring list \<Rightarrow> nat \<Rightarrow> jstring \<Rightarrow> real" where
  "spec_weight idx qs i t = real (count_list qs t) * (1 + ln (1 + real (get0 (tf idx ! i) t)))"

definition spec_score :: "index \<Rightarrow> jstring list \<Rightarrow> nat \<Rightarrow> real" where
  "spec_score idx qs i =
     (\<Sum>t\<in>set qs. if get0 (df idx) t = 0 then 0 else spec_weight idx qs i t * spec_idf idx t)"

text \<open>What one entry \<open>(term, qtf)\<close> of \<open>qCounts\<close> adds to the score of chunk \<open>i\<close> in the code.\<close>

definition contribution :: "index \<Rightarrow> nat \<Rightarrow> jstring \<times> nat \<Rightarrow> real" where
  "contribution idx i p =
     (if get0 (df idx) (fst p) = 0 then 0
      else real (snd p) * (1 + ln (1 + real (get0 (tf idx ! i) (fst p)))) * spec_idf idx (fst p))"

text \<open>
  The order of the ranking: \<open>a\<close>, a pair of a chunk position and its score, comes before
  \<open>b\<close> when its score is higher, or the scores are equal and its position is lower.
\<close>

definition ranks_before :: "nat \<times> real \<Rightarrow> nat \<times> real \<Rightarrow> bool" where
  "ranks_before a b = (snd b < snd a \<or> (snd a = snd b \<and> fst a < fst b))"

text \<open>
  The tokenizer's last two steps as one scan: white space ends the current word \<open>w\<close>, and
  empty words are not emitted.
\<close>

fun scan_words :: "jstring \<Rightarrow> jstring \<Rightarrow> jstring list" where
  "scan_words w [] = (if w = [] then [] else [w])"
| "scan_words w (c # cs) =
     (if is_js_space c then (if w = [] then [] else [w]) @ scan_words [] cs
      else scan_words (w @ [c]) cs)"

text \<open>The code points of a string, as a regular expression with the \<open>u\<close> flag reads them.\<close>

fun code_points :: "jstring \<Rightarrow> nat list" where
  "code_points [] = []"
| "code_points [c] = [unat c]"
| "code_points (h # l # rest) =
     (if is_high_surrogate h \<and> is_low_surrogate l
      then pair_code_point h l # code_points rest
      else unat h # code_points (l # rest))"

text \<open>
  A paragraph of a transcription: a non-empty text with no blank line in it (no two
  line feeds in a row) that neither starts nor ends with a line feed.
\<close>

fun blank_line_free :: "jstring \<Rightarrow> bool" where
  "blank_line_free (a # b # cs) = (\<not> (a = 0x0A \<and> b = 0x0A) \<and> blank_line_free (b # cs))"
| "blank_line_free [a] = True"
| "blank_line_free [] = True"

definition is_paragraph :: "jstring \<Rightarrow> bool" where
  "is_paragraph p = (p \<noteq> [] \<and> hd p \<noteq> 0x0A \<and> last p \<noteq> 0x0A \<and> blank_line_free p)"

text \<open>
  The same formulas evaluated with the numbers of the engine. A \<open>Map\<close> lists its keys in
  the order of their insertion: the distinct query terms in the order in which they first
  occur in the query. The score is the sum taken in this order, each operation rounded.
\<close>

definition first_terms :: "jstring list \<Rightarrow> jstring list" where
  "first_terms qs = rev (remdups (rev qs))"

definition spec_idf_in :: "arith \<Rightarrow> index \<Rightarrow> jstring \<Rightarrow> real" where
  "spec_idf_in A idx t =
     flog A (rnd A (rnd A (real (N idx) + 1) / rnd A (real (get0 (df idx) t) + 1 / 2)))"

definition spec_weight_in :: "arith \<Rightarrow> index \<Rightarrow> jstring list \<Rightarrow> nat \<Rightarrow> jstring \<Rightarrow> real" where
  "spec_weight_in A idx qs i t =
     rnd A (real (count_list qs t) * rnd A (1 + flog A (rnd A (1 + real (get0 (tf idx ! i) t)))))"

definition spec_score_in :: "arith \<Rightarrow> index \<Rightarrow> jstring list \<Rightarrow> nat \<Rightarrow> real" where
  "spec_score_in A idx qs i =
     foldl (\<lambda>s t. if get0 (df idx) t = 0 then s
                   else rnd A (s + rnd A (spec_weight_in A idx qs i t * spec_idf_in A idx t)))
       0 (first_terms qs)"

text \<open>The number that a string of decimal digits denotes.\<close>

definition decimal_value :: "jstring \<Rightarrow> nat" where
  "decimal_value ds = foldl (\<lambda>a d. 10 * a + (unat d - 48)) 0 ds"

text \<open>
  The corpus of the specification's examples: two chunks with the texts \<open>cat dog\<close> and
  \<open>dog dog\<close>, whatever their other fields are; and a chunk with empty fields.
\<close>

definition cat_dog :: "chunk \<Rightarrow> chunk \<Rightarrow> chunk list" where
  "cat_dog c0 c1 = [c0\<lparr>chunk_text := js ''cat dog''\<rparr>, c1\<lparr>chunk_text := js ''dog dog''\<rparr>]"

definition blank :: chunk where
  "blank = \<lparr>chunk_id = [], chunk_text = [], chunk_title = [], chunk_date = [], chunk_url = []\<rparr>"

text \<open>
  An example session: the file holds one transcription of two paragraphs, and
  \<open>example_body\<close> is its JSON text. The candidate in the same folder answers 404 with an HTML
  page, the one in the parent folder serves the file, \<open>copy.txt\<close> serves the same text with
  no content type, the body of \<open>cut.json\<close> cannot be read, \<open>page.json\<close> is an HTML page declared as JSON,
  \<open>index.html\<close> is an HTML page and every other fetch fails. The parser of
  the example does what \<open>JSON.parse\<close> does on the bodies that this network serves: it
  returns the file's content for \<open>example_body\<close> and rejects the HTML pages.
\<close>

definition example_data :: corpus_json where
  "example_data =
     \<lparr>transcriptions =
        Some [Some \<lparr>metadata =
                      Some \<lparr>title = Some (js ''T''), record_date = None,
                            estimated_date = Some (js ''2024''), url = Some (js ''u'')\<rparr>,
                    transcription = Some (js ''cat dog'' @ [0x0A, 0x0A] @ js ''dog dog'')\<rparr>],
      videos = None\<rparr>"

definition example_body :: jstring where
  \<open>example_body =
     js ''{"transcriptions":[{"metadata":{"title":"T","estimated_date":"2024","url":"u"},''
     @ js ''"transcription":"cat dog'' @ [0x5C, 0x6E, 0x5C, 0x6E] @ js ''dog dog"}]}''\<close>

definition example_fetch :: "jstring \<Rightarrow> js_error + response" where
  "example_fetch p =
     (if p = js ''../real_transcriptions.json''
      then Inr \<lparr>ok = True, status = 200, statusText = js ''OK'',
                content_type = Some (js ''application/json''), body_text = Inr example_body\<rparr>
      else if p = js ''./real_transcriptions.json''
      then Inr \<lparr>ok = False, status = 404, statusText = js ''Not Found'',
                content_type = Some (js ''text/html''), body_text = Inr (js ''<html>'')\<rparr>
      else if p = js ''copy.txt''
      then Inr \<lparr>ok = True, status = 200, statusText = js ''OK'',
                content_type = None, body_text = Inr example_body\<rparr>
      else if p = js ''cut.json''
      then Inr \<lparr>ok = True, status = 200, statusText = js ''OK'',
                content_type = Some (js ''application/json''), body_text = Inl TypeError\<rparr>
      else if p = js ''page.json''
      then Inr \<lparr>ok = True, status = 200, statusText = js ''OK'',
                content_type = Some (js ''application/json''), body_text = Inr (js ''<html>'')\<rparr>
      else if p = js ''index.html''
      then Inr \<lparr>ok = True, status = 200, statusText = js ''OK'',
                content_type = Some (js ''text/html''), body_text = Inr (js '' <html>'')\<rparr>
      else Inl TypeError)"

definition example_parse :: "jstring \<Rightarrow> js_error + corpus_json" where
  "example_parse t = (if t = example_body then Inr example_data else Inl SyntaxError)"

section \<open>Counting terms\<close>

lemma get0_Nil: "get0 [] t = 0"
  by (simp add: get0_def)

lemma get0_bump: "get0 (bump m t) t' = (if t' = t then get0 m t + 1 else get0 m t')"
  by (simp add: bump_def get0_def update_conv')

lemma keys_bump: "set (map fst (bump m t)) = insert t (set (map fst m))"
  by (simp add: bump_def dom_update)

lemma distinct_bump: "distinct (map fst m) \<Longrightarrow> distinct (map fst (bump m t))"
  by (simp add: bump_def distinct_update)

lemma get0_foldl_bump: "get0 (foldl bump m ts) t = get0 m t + count_list ts t"
  by (induction ts arbitrary: m) (auto simp: get0_bump)

lemma keys_foldl_bump: "set (map fst (foldl bump m ts)) = set (map fst m) \<union> set ts"
  by (induction ts arbitrary: m) (auto simp: keys_bump simp del: set_map)

lemma distinct_foldl_bump: "distinct (map fst m) \<Longrightarrow> distinct (map fst (foldl bump m ts))"
  by (induction ts arbitrary: m) (auto simp: distinct_bump)

lemma get0_count_terms: "get0 (count_terms ts) t = count_list ts t"
  by (simp add: count_terms_def get0_foldl_bump get0_Nil)

lemma keys_count_terms: "set (map fst (count_terms ts)) = set ts"
  by (simp add: count_terms_def keys_foldl_bump del: set_map)

lemma distinct_count_terms: "distinct (map fst (count_terms ts))"
  by (simp add: count_terms_def distinct_foldl_bump)

lemma count_list_distinct: "distinct ks \<Longrightarrow> count_list ks t = (if t \<in> set ks then 1 else 0)"
  by (induction ks) auto

lemma get0_add_keys:
  "get0 (foldl bump d (map fst (count_terms ts))) t = get0 d t + (if t \<in> set ts then 1 else 0)"
  using count_list_distinct [OF distinct_count_terms, of ts t]
  by (simp add: get0_foldl_bump keys_count_terms del: set_map)

lemma fst_index_items:
  "fst (index_items U its d) = map (\<lambda>it. count_terms (tokenize U (chunk_text it))) its"
  by (induction its arbitrary: d) (simp_all add: Let_def split_beta)

lemma get0_snd_index_items:
  "get0 (snd (index_items U its d)) t =
     get0 d t + length (filter (\<lambda>it. t \<in> set (tokenize U (chunk_text it))) its)"
  by (induction its arbitrary: d) (simp_all add: Let_def split_beta get0_add_keys)

lemma buildIndex_sel:
  "items (buildIndex U its) = its"
  "N (buildIndex U its) = length its"
  "tf (buildIndex U its) = map (\<lambda>it. count_terms (tokenize U (chunk_text it))) its"
  "df (buildIndex U its) = snd (index_items U its [])"
  using fst_index_items [of U its "[]"]
  by (auto simp: buildIndex_def split: prod.splits)

lemma count_list_pos: "0 < count_list ts t \<longleftrightarrow> t \<in> set ts"
  by (induction ts) auto

lemma df_buildIndex:
  "get0 (df (buildIndex U its)) t = card {i. i < length its \<and> 0 < get0 (tf (buildIndex U its) ! i) t}"
proof -
  let ?c = "\<lambda>it. count_terms (tokenize U (chunk_text it))"
  have "get0 (df (buildIndex U its)) t = length (filter (\<lambda>c. 0 < get0 c t) (map ?c its))"
    by (simp add: buildIndex_sel get0_snd_index_items get0_Nil filter_map comp_def
        get0_count_terms count_list_pos)
  also have "\<dots> = card {i. i < length (map ?c its) \<and> 0 < get0 (map ?c its ! i) t}"
    by (rule length_filter_conv_card)
  finally show ?thesis by (simp add: buildIndex_sel)
qed

section \<open>Scores\<close>

lemma chunk_score_sum:
  "i < length (tf idx) \<Longrightarrow>
   chunk_score idx i qc s = Inr (s + sum_list (map (contribution idx i) qc))"
  by (induction qc arbitrary: s)
     (auto simp: Let_def contribution_def spec_idf_def algebra_simps)

lemma map_of_distinct_get0:
  "distinct (map fst m) \<Longrightarrow> (t, q) \<in> set m \<Longrightarrow> get0 m t = q"
  by (simp add: get0_def)

lemma sum_list_count_terms:
  "sum_list (map (contribution idx i) (count_terms qs)) = spec_score idx qs i"
proof -
  let ?m = "count_terms qs"
  let ?g = "\<lambda>t. if get0 (df idx) t = 0 then 0 else spec_weight idx qs i t * spec_idf idx t"
  have "contribution idx i p = ?g (fst p)" if p: "p \<in> set ?m" for p
  proof -
    obtain t q where tq: "p = (t, q)" by (cases p)
    with p have "get0 ?m t = q"
      using map_of_distinct_get0 [OF distinct_count_terms] by blast
    then have "q = count_list qs t" by (simp add: get0_count_terms)
    with tq show ?thesis
      by (simp add: contribution_def spec_weight_def)
  qed
  then have "map (contribution idx i) ?m = map ?g (map fst ?m)"
    by (simp add: map_eq_conv)
  then have "sum_list (map (contribution idx i) ?m) = sum_list (map ?g (map fst ?m))"
    by (rule arg_cong)
  also have "\<dots> = sum ?g (set (map fst ?m))"
    by (rule sum_list_distinct_conv_sum_set [OF distinct_count_terms])
  finally show ?thesis
    by (simp add: spec_score_def keys_count_terms del: set_map)
qed

lemma chunk_scores_upt:
  "(\<And>i. i \<in> set ix \<Longrightarrow> chunk_score idx i qc 0 = Inr (f i)) \<Longrightarrow>
   chunk_scores idx qc ix = Inr (map (\<lambda>i. (i, f i)) ix)"
  by (induction ix) auto

lemma chunk_scores_spec:
  assumes "n \<le> length (tf idx)"
  shows "chunk_scores idx (count_terms qs) [0..<n] = Inr (map (\<lambda>i. (i, spec_score idx qs i)) [0..<n])"
  using assms by (intro chunk_scores_upt) (simp add: chunk_score_sum sum_list_count_terms)

lemma insort_ranks_before:
  "sorted_wrt ranks_before ys \<Longrightarrow> \<forall>y\<in>set ys. fst x < fst y \<Longrightarrow>
   sorted_wrt ranks_before (insort_key (\<lambda>(i, s). - s) x ys)"
proof (induction ys)
  case Nil
  show ?case by simp
next
  case (Cons y ys)
  show ?case
  proof (cases "snd y \<le> snd x")
    case True
    have "ranks_before x z" if "z \<in> set (y # ys)" for z
    proof -
      from that Cons.prems(1) have "snd z \<le> snd y"
        by (auto simp: ranks_before_def)
      with True that Cons.prems(2) show ?thesis
        by (auto simp: ranks_before_def)
    qed
    with True Cons.prems(1) show ?thesis
      by (simp add: case_prod_beta)
  next
    case False
    then have "ranks_before y x" by (simp add: ranks_before_def)
    with False Cons show ?thesis
      by (auto simp: case_prod_beta set_insort_key)
  qed
qed

lemma sort_ranks_before:
  "sorted_wrt (<) (map fst xs) \<Longrightarrow> sorted_wrt ranks_before (sort_key (\<lambda>(i, s). - s) xs)"
  by (induction xs) (auto intro!: insort_ranks_before)

lemma sort_key_const:
  "\<forall>x\<in>set xs. f x = c \<Longrightarrow> sort_key f xs = xs"
proof (induction xs)
  case Nil
  show ?case by simp
next
  case (Cons x xs)
  then show ?case by (cases xs) auto
qed

lemma length_slice0: "0 \<le> k \<Longrightarrow> length (slice0 xs k) = min (nat k) (length xs)"
  by (simp add: slice0_def)

lemma ranking_spec:
  assumes "length (items idx) \<le> length (tf idx)"
  shows "ranking U q idx =
         Inr (sort_key (\<lambda>(i, s). - s)
               (map (\<lambda>i. (i, spec_score idx (tokenize U q) i)) [0..<length (items idx)]))"
  by (simp add: ranking_def chunk_scores_spec [OF assms])

lemma buildIndex_wf: "length (items (buildIndex U its)) \<le> length (tf (buildIndex U its))"
  by (simp add: buildIndex_sel)

lemma df_le_N: "get0 (df (buildIndex U its)) t \<le> N (buildIndex U its)"
  by (simp add: buildIndex_sel get0_snd_index_items get0_Nil)

lemma idf_pos: "0 < spec_idf (buildIndex U its) t"
proof -
  have "real (get0 (df (buildIndex U its)) t) \<le> real (N (buildIndex U its))"
    using df_le_N [of U its t] by simp
  then show ?thesis by (simp add: spec_idf_def)
qed

lemma spec_score_nonneg: "0 \<le> spec_score (buildIndex U its) qs i"
  unfolding spec_score_def
proof (rule sum_nonneg)
  fix t
  have "0 \<le> spec_weight (buildIndex U its) qs i t"
    by (simp add: spec_weight_def add_nonneg_nonneg)
  then show "0 \<le> (if get0 (df (buildIndex U its)) t = 0 then 0
          else spec_weight (buildIndex U its) qs i t * spec_idf (buildIndex U its) t)"
    using idf_pos [of U its t] by simp
qed

section \<open>ASCII text\<close>

lemma ascii_not_surrogate: "c < 0x80 \<Longrightarrow> \<not> is_high_surrogate (c::cu)"
  by (auto simp: is_high_surrogate_def word_less_nat_alt word_le_nat_alt)

lemma ascii_unat: "c < 0x80 \<Longrightarrow> unat (c::cu) < 0x80"
  by (simp add: word_less_nat_alt)

lemma ascii_lower_ascii: "c < 0x80 \<Longrightarrow> ascii_lower c < 0x80"
  by (auto simp: ascii_lower_def word_less_nat_alt word_le_nat_alt unat_word_ariths)

lemma is_ascii_lower: "is_ascii s \<Longrightarrow> is_ascii (map ascii_lower s)"
  by (simp add: is_ascii_def list_all_iff ascii_lower_ascii)

lemma replace_ps_ascii:
  "agrees_on_ascii U \<Longrightarrow> is_ascii s \<Longrightarrow> replace_ps U s = replace_ps ascii_tables s"
proof (induction U s rule: replace_ps.induct)
  case (1 U)
  show ?case by simp
next
  case (2 U c)
  then show ?case
    by (simp add: agrees_on_ascii_def is_ascii_def ascii_tables_def ascii_unat)
next
  case (3 U h l rest)
  then have h: "h < 0x80" and r: "is_ascii (l # rest)" "is_ascii rest"
    by (simp_all add: is_ascii_def)
  from h have nh: "\<not> is_high_surrogate h" by (rule ascii_not_surrogate)
  from "3.prems"(1) h have "punct_or_symbol U (unat h) = ascii_ps (unat h)"
    by (simp add: agrees_on_ascii_def ascii_unat)
  with nh "3.IH"(3) [OF _ "3.prems"(1) r(1)] show ?case
    by (simp add: ascii_tables_def)
qed

lemma tokenize_ascii:
  assumes "agrees_on_ascii U" "is_ascii s"
  shows "tokenize U s = tokenize ascii_tables s"
proof -
  from assms have "toLowerCase U s = map ascii_lower s"
    by (simp add: agrees_on_ascii_def)
  moreover have "toLowerCase ascii_tables s = map ascii_lower s"
    by (simp add: ascii_tables_def)
  ultimately show ?thesis
    using replace_ps_ascii [OF assms(1) is_ascii_lower [OF assms(2)]]
    by (simp add: tokenize_def)
qed

lemma ascii_tables_agree: "agrees_on_ascii ascii_tables"
  by (simp add: agrees_on_ascii_def ascii_tables_def)

lemma index_items_ascii:
  "agrees_on_ascii U \<Longrightarrow> list_all (\<lambda>c. is_ascii (chunk_text c)) its \<Longrightarrow>
   index_items U its d = index_items ascii_tables its d"
  by (induction its arbitrary: d) (simp_all add: tokenize_ascii Let_def)

lemma buildIndex_ascii:
  "agrees_on_ascii U \<Longrightarrow> list_all (\<lambda>c. is_ascii (chunk_text c)) its \<Longrightarrow>
   buildIndex U its = buildIndex ascii_tables its"
  by (simp add: buildIndex_def index_items_ascii)

section \<open>The example corpus\<close>

lemma cat_dog_tokens:
  "tokenize ascii_tables (js ''cat dog'') = [js ''cat'', js ''dog'']"
  "tokenize ascii_tables (js ''dog dog'') = [js ''dog'', js ''dog'']"
  "tokenize ascii_tables (js ''dog'') = [js ''dog'']"
  "tokenize ascii_tables (js ''cat'') = [js ''cat'']"
  by code_simp+

lemma cat_dog_is_ascii:
  "is_ascii (js ''cat dog'')" "is_ascii (js ''dog dog'')" "is_ascii (js ''dog'')" "is_ascii (js ''cat'')"
  by code_simp+

lemma cat_dog_index:
  assumes "agrees_on_ascii U"
  shows "df (buildIndex U (cat_dog c0 c1)) = [(js ''cat'', 1), (js ''dog'', 2)]"
    and "tf (buildIndex U (cat_dog c0 c1)) = [[(js ''cat'', 1), (js ''dog'', 1)], [(js ''dog'', 2)]]"
    and "N (buildIndex U (cat_dog c0 c1)) = 2"
    and "items (buildIndex U (cat_dog c0 c1)) = cat_dog c0 c1"
proof -
  have e: "buildIndex U (cat_dog c0 c1) = buildIndex ascii_tables (cat_dog c0 c1)"
    using assms by (simp add: buildIndex_ascii cat_dog_def cat_dog_is_ascii)
  have c: "count_terms [js ''cat'', js ''dog''] = [(js ''cat'', 1), (js ''dog'', 1)]"
    "count_terms [js ''dog'', js ''dog''] = [(js ''dog'', 2)]"
    by code_simp+
  show "df (buildIndex U (cat_dog c0 c1)) = [(js ''cat'', 1), (js ''dog'', 2)]"
    unfolding e
    apply (simp add: buildIndex_def cat_dog_def cat_dog_tokens Let_def)
    apply code_simp
    done
  show "tf (buildIndex U (cat_dog c0 c1)) = [[(js ''cat'', 1), (js ''dog'', 1)], [(js ''dog'', 2)]]"
    unfolding e by (simp add: buildIndex_sel cat_dog_def cat_dog_tokens c)
  show "N (buildIndex U (cat_dog c0 c1)) = 2"
    by (simp add: buildIndex_sel cat_dog_def)
  show "items (buildIndex U (cat_dog c0 c1)) = cat_dog c0 c1"
    by (simp add: buildIndex_sel)
qed

lemma cat_dog_get0:
  "get0 [(js ''cat'', 1), (js ''dog'', 2)] (js ''dog'') = 2"
  "get0 [(js ''cat'', 1), (js ''dog'', 2)] (js ''cat'') = 1"
  "get0 [(js ''cat'', 1), (js ''dog'', 1)] (js ''dog'') = 1"
  "get0 [(js ''cat'', 1), (js ''dog'', 1)] (js ''cat'') = 1"
  "get0 [(js ''dog'', 2)] (js ''dog'') = 2"
  "get0 [(js ''dog'', 2)] (js ''cat'') = 0"
  by code_simp+

lemma score_value_with_score: "score_value (with_score c s) = s"
  by (simp add: with_score_def)

lemma score_spec:
  "score U q (buildIndex U its) k =
     Inr (map (\<lambda>(i, s). with_score (its ! i) s)
           (slice0 (sort_key (\<lambda>(i, s). - s)
                     (map (\<lambda>i. (i, spec_score (buildIndex U its) (tokenize U q) i)) [0..<length its]))
                   k))"
  using ranking_spec [OF buildIndex_wf, of U q U its]
  by (simp add: score_def buildIndex_sel)

lemma set_slice0: "set (slice0 xs k) \<subseteq> set xs"
  by (auto simp: slice0_def dest: in_set_takeD)

lemma spec_score_unknown:
  "\<forall>t\<in>set qs. get0 (df idx) t = 0 \<Longrightarrow> spec_score idx qs i = 0"
  by (simp add: spec_score_def)

lemma spec_score_single:
  "set qs = {t} \<Longrightarrow>
   spec_score idx qs i =
     (if get0 (df idx) t = 0 then 0 else spec_weight idx qs i t * spec_idf idx t)"
  by (simp add: spec_score_def)

lemma spec_weight_mono:
  "get0 (tf idx ! i) t \<le> get0 (tf idx ! j) t \<Longrightarrow> spec_weight idx qs i t \<le> spec_weight idx qs j t"
  by (simp add: spec_weight_def mult_left_mono)

lemma spec_score_mono:
  assumes "set qs = {t}"
    and "get0 (tf (buildIndex U its) ! i) t \<le> get0 (tf (buildIndex U its) ! j) t"
  shows "spec_score (buildIndex U its) qs i \<le> spec_score (buildIndex U its) qs j"
  using spec_weight_mono [OF assms(2), of qs] idf_pos [of U its t]
  by (simp add: spec_score_single [OF assms(1)] mult_right_mono)

lemma keys_snd_index_items:
  "fst ` set (snd (index_items U its d)) =
     fst ` set d \<union> (\<Union>it\<in>set its. set (tokenize U (chunk_text it)))"
proof (induction its arbitrary: d)
  case Nil
  show ?case by simp
next
  case (Cons it its)
  have "fst ` set (foldl bump d (map fst (count_terms (tokenize U (chunk_text it)))))
        = fst ` set d \<union> set (tokenize U (chunk_text it))"
    using keys_foldl_bump [of d "map fst (count_terms (tokenize U (chunk_text it)))"]
      keys_count_terms [of "tokenize U (chunk_text it)"]
    by simp
  with Cons.IH show ?case
    by (auto simp: Let_def split_beta)
qed

lemma df_ge_1:
  assumes "t \<in> fst ` set (df (buildIndex U its))"
  shows "1 \<le> get0 (df (buildIndex U its)) t"
proof -
  from assms obtain it where it: "it \<in> set its" "t \<in> set (tokenize U (chunk_text it))"
    by (auto simp: buildIndex_sel keys_snd_index_items)
  then have "filter (\<lambda>it. t \<in> set (tokenize U (chunk_text it))) its \<noteq> []"
    by (auto simp: filter_empty_conv)
  then have "0 < length (filter (\<lambda>it. t \<in> set (tokenize U (chunk_text it))) its)"
    by blast
  then have "1 \<le> length (filter (\<lambda>it. t \<in> set (tokenize U (chunk_text it))) its)"
    by linarith
  then show ?thesis
    by (simp only: buildIndex_sel get0_snd_index_items get0_Nil add_0)
qed

lemma map_nth_take: "map (\<lambda>i. f (xs ! i)) (take n [0..<length xs]) = map f (take n xs)"
proof -
  have "map (\<lambda>i. f (xs ! i)) (take n [0..<length xs]) = map f (take n (map ((!) xs) [0..<length xs]))"
    by (simp add: take_map)
  then show ?thesis by (simp add: map_nth)
qed

lemma score_unknown:
  assumes "\<forall>t\<in>set (tokenize U q). get0 (df (buildIndex U its)) t = 0" and "0 \<le> k"
  shows "score U q (buildIndex U its) k = Inr (map (\<lambda>c. with_score c 0) (take (nat k) its))"
proof -
  let ?idx = "buildIndex U its"
  have z: "map (\<lambda>i. (i, spec_score ?idx (tokenize U q) i)) [0..<length its]
           = map (\<lambda>i. (i, 0)) [0..<length its]"
    using assms(1) by (simp add: spec_score_unknown)
  have s: "sort_key (\<lambda>(i, s). - s) (map (\<lambda>i. (i, 0::real)) [0..<length its])
           = map (\<lambda>i. (i, 0)) [0..<length its]"
    by (rule sort_key_const [where c = 0]) auto
  show ?thesis
    using assms(2) map_nth_take [of "\<lambda>c. with_score c 0" its "nat k"]
    by (simp add: score_spec z s slice0_def take_map comp_def)
qed

lemma chunk_scores_buildIndex:
  "chunk_scores (buildIndex U its) (count_terms (tokenize U q)) [0..<length its] =
     Inr (map (\<lambda>i. (i, spec_score (buildIndex U its) (tokenize U q) i)) [0..<length its])"
  by (rule chunk_scores_spec) (simp add: buildIndex_sel)

lemma cat_dog_facts:
  assumes "agrees_on_ascii U"
  shows "get0 (df (buildIndex U (cat_dog c0 c1))) (js ''cat'') = 1"
    and "get0 (df (buildIndex U (cat_dog c0 c1))) (js ''dog'') = 2"
    and "get0 (tf (buildIndex U (cat_dog c0 c1)) ! 0) (js ''cat'') = 1"
    and "get0 (tf (buildIndex U (cat_dog c0 c1)) ! 0) (js ''dog'') = 1"
    and "get0 (tf (buildIndex U (cat_dog c0 c1)) ! 1) (js ''cat'') = 0"
    and "get0 (tf (buildIndex U (cat_dog c0 c1)) ! 1) (js ''dog'') = 2"
    and "length (tf (buildIndex U (cat_dog c0 c1))) = 2"
    and "length (cat_dog c0 c1) = 2"
proof -
  note ix = cat_dog_index [OF assms, of c0 c1]
  have n: "[x, y] ! 0 = x" "[x, y] ! 1 = y" for x y :: counts
    by simp_all
  show "get0 (df (buildIndex U (cat_dog c0 c1))) (js ''cat'') = 1"
    by (simp only: ix cat_dog_get0)
  show "get0 (df (buildIndex U (cat_dog c0 c1))) (js ''dog'') = 2"
    by (simp only: ix cat_dog_get0)
  show "get0 (tf (buildIndex U (cat_dog c0 c1)) ! 0) (js ''cat'') = 1"
    by (simp only: ix n cat_dog_get0)
  show "get0 (tf (buildIndex U (cat_dog c0 c1)) ! 0) (js ''dog'') = 1"
    by (simp only: ix n cat_dog_get0)
  show "get0 (tf (buildIndex U (cat_dog c0 c1)) ! 1) (js ''cat'') = 0"
    by (simp only: ix n cat_dog_get0)
  show "get0 (tf (buildIndex U (cat_dog c0 c1)) ! 1) (js ''dog'') = 2"
    by (simp only: ix n cat_dog_get0)
  show "length (tf (buildIndex U (cat_dog c0 c1))) = 2"
    by (simp add: ix)
  show "length (cat_dog c0 c1) = 2"
    by (simp add: cat_dog_def)
qed

lemma bird_tokens: "tokenize ascii_tables (js ''bird'') = [js ''bird'']"
  by code_simp

lemma bird_unknown:
  assumes "agrees_on_ascii U"
  shows "get0 (df (buildIndex U (cat_dog c0 c1))) (js ''bird'') = 0"
proof -
  have "get0 [(js ''cat'', 1), (js ''dog'', 2)] (js ''bird'') = 0"
    by code_simp
  then show ?thesis
    by (simp only: cat_dog_index [OF assms])
qed

section \<open>Splitting and tokens\<close>

lemma split_runs_no_sep: "\<forall>c\<in>set w. \<not> P c \<Longrightarrow> split_runs P k w = [w]"
  by (induction w) auto

lemma split_runs_word:
  "\<forall>c\<in>set w. \<not> P c \<Longrightarrow> P c \<Longrightarrow>
   split_runs P (Suc 0) (w @ c # cs) = w # split_runs P (Suc 0) (dropWhile P cs)"
  by (induction w) auto

lemma split_runs_leading:
  "filter (\<lambda>w. w \<noteq> []) (split_runs P (Suc 0) (dropWhile P cs))
   = filter (\<lambda>w. w \<noteq> []) (split_runs P (Suc 0) cs)"
  by (cases cs) auto

lemma split_runs_scan:
  "\<forall>c\<in>set w. \<not> is_js_space c \<Longrightarrow>
   filter (\<lambda>w. w \<noteq> []) (split_runs is_js_space (Suc 0) (w @ s)) = scan_words w s"
proof (induction s arbitrary: w)
  case Nil
  then show ?case by (simp add: split_runs_no_sep)
next
  case (Cons c cs)
  show ?case
  proof (cases "is_js_space c")
    case True
    have "filter (\<lambda>w. w \<noteq> []) (split_runs is_js_space (Suc 0) cs) = scan_words [] cs"
      using Cons.IH [of "[]"] by simp
    with True Cons.prems show ?thesis
      by (simp add: split_runs_word split_runs_leading)
  next
    case False
    with Cons.prems Cons.IH [of "w @ [c]"] show ?thesis by simp
  qed
qed

lemma split_runs_pieces:
  "\<forall>w\<in>set (split_runs P (Suc 0) s). \<forall>c\<in>set w. \<not> P c"
proof (induction P "Suc 0" s rule: split_runs.induct)
  case (1 P)
  show ?case by simp
next
  case (2 P c cs)
  show ?case
  proof (cases "P c")
    case True
    with 2 show ?thesis by simp
  next
    case False
    with 2 show ?thesis by (cases "split_runs P (Suc 0) cs") auto
  qed
qed

lemma filter_not_dropWhile: "filter (\<lambda>c. \<not> P c) (dropWhile P cs) = filter (\<lambda>c. \<not> P c) cs"
  by (induction cs) auto

lemma concat_split_runs:
  "concat (split_runs P (Suc 0) s) = filter (\<lambda>c. \<not> P c) s"
proof (induction P "Suc 0" s rule: split_runs.induct)
  case (1 P)
  show ?case by simp
next
  case (2 P c cs)
  then show ?case
    by (auto simp: filter_not_dropWhile split: list.splits)
qed

lemma concat_filter_nonempty: "concat (filter (\<lambda>w. w \<noteq> []) xs) = concat xs"
  by (induction xs) auto

lemma code_points_not_high:
  "\<not> is_high_surrogate c \<Longrightarrow> code_points (c # xs) = unat c # code_points xs"
  by (cases xs) auto

lemma code_points_not_low:
  "xs = [] \<or> \<not> is_low_surrogate (hd xs) \<Longrightarrow> code_points (c # xs) = unat c # code_points xs"
  by (cases xs) auto

lemma hd_replace_ps:
  "replace_ps U (l # rest) \<noteq> []
   \<and> (hd (replace_ps U (l # rest)) = l \<or> hd (replace_ps U (l # rest)) = 0x20)"
  by (cases rest) auto

lemma space_not_surrogate: "\<not> is_high_surrogate 0x20" "\<not> is_low_surrogate 0x20"
  by (simp_all add: is_high_surrogate_def is_low_surrogate_def)

lemma code_points_replace_ps:
  "code_points (replace_ps U s) =
     map (\<lambda>cp. if punct_or_symbol U cp then 0x20 else cp) (code_points s)"
proof (induction U s rule: replace_ps.induct)
  case (1 U)
  show ?case by simp
next
  case (2 U c)
  show ?case by simp
next
  case (3 U h l rest)
  let ?f = "\<lambda>cp. if punct_or_symbol U cp then 0x20 else cp"
  let ?r = "replace_ps U (l # rest)"
  show ?case
  proof (cases "is_high_surrogate h")
    case h: True
    show ?thesis
    proof (cases "is_low_surrogate l")
      case True
      with h "3.IH"(1,2) show ?thesis
        by (simp add: code_points_not_high space_not_surrogate)
    next
      case False
      from hd_replace_ps [of U l rest] False space_not_surrogate
      have "?r = [] \<or> \<not> is_low_surrogate (hd ?r)"
        by auto
      then have "code_points (h # ?r) = unat h # code_points ?r"
        by (rule code_points_not_low)
      with False "3.IH"(3) show ?thesis
        by (simp add: code_points_not_high space_not_surrogate)
    qed
  next
    case False
    with "3.IH"(3) show ?thesis
      by (simp add: code_points_not_high space_not_surrogate)
  qed
qed

lemma hello_world:
  "tokenize ascii_tables (js ''Hello, World!'') = [js ''hello'', js ''world'']"
  "tokenize ascii_tables (js '''') = []"
  "is_ascii (js ''Hello, World!'')"
  "is_ascii (js '''')"
  "map ascii_lower (js ''Hello, World!'') = js ''hello, world!''"
  by code_simp+

lemma blank_line_free_Cons: "blank_line_free (c # p) \<Longrightarrow> blank_line_free p"
  by (cases p) auto

lemma split_runs_paragraph_only:
  "blank_line_free p \<Longrightarrow> split_runs (\<lambda>c. c = 0x0A) 2 p = [p]"
proof (induction p)
  case Nil
  show ?case by simp
next
  case (Cons c p)
  then have "split_runs (\<lambda>c. c = 0x0A) 2 p = [p]"
    by (simp add: blank_line_free_Cons)
  with Cons.prems show ?case
    by (cases p) auto
qed

lemma split_runs_paragraph:
  "blank_line_free p \<Longrightarrow> p = [] \<or> last p \<noteq> 0x0A \<Longrightarrow> rest = [] \<or> hd rest \<noteq> 0x0A \<Longrightarrow>
   split_runs (\<lambda>c. c = 0x0A) 2 (p @ 0x0A # 0x0A # rest) = p # split_runs (\<lambda>c. c = 0x0A) 2 rest"
proof (induction p)
  case Nil
  then show ?case by (cases rest) auto
next
  case (Cons c p)
  show ?case
  proof (cases p)
    case Nil
    with Cons show ?thesis by (cases rest) auto
  next
    case (Cons d q)
    with Cons.prems Cons.IH show ?thesis by auto
  qed
qed

lemma first_piece:
  "split_runs P k cs = w # ws \<Longrightarrow> w \<noteq> [] \<Longrightarrow> cs \<noteq> [] \<and> hd w = hd cs"
  by (cases cs) (auto split: if_splits list.splits)

lemma split_runs_blank_line_free:
  "\<forall>w\<in>set (split_runs (\<lambda>c. c = 0x0A) 2 s). blank_line_free w"
proof (induction "\<lambda>c::cu. c = 0x0A" "2::nat" s rule: split_runs.induct)
  case 1
  show ?case by simp
next
  case (2 c cs)
  show ?case
  proof (cases "c = 0x0A \<and> 2 \<le> Suc (length (takeWhile (\<lambda>c. c = 0x0A) cs))")
    case True
    with 2 show ?thesis by simp
  next
    case False
    show ?thesis
    proof (cases "split_runs (\<lambda>c. c = 0x0A) 2 cs")
      case Nil
      with False show ?thesis by auto
    next
      case (Cons w ws)
      have "blank_line_free (c # w)"
      proof (cases w)
        case Nil
        show ?thesis by (simp add: Nil)
      next
        case (Cons d v)
        with first_piece [OF \<open>split_runs (\<lambda>c. c = 0x0A) 2 cs = w # ws\<close>]
        have cs: "cs \<noteq> []" "hd cs = d" by auto
        from 2(2) [OF False] \<open>split_runs (\<lambda>c. c = 0x0A) 2 cs = w # ws\<close>
        have "blank_line_free w" by simp
        moreover from False cs have "\<not> (c = 0x0A \<and> d = 0x0A)"
          by (cases cs) auto
        ultimately show ?thesis by (simp add: Cons)
      qed
      with 2(2) [OF False] False Cons show ?thesis by auto
    qed
  qed
qed

lemma paragraphs_three:
  assumes "is_paragraph p0" "is_paragraph p1" "is_paragraph p2"
  shows "paragraphs (p0 @ [0x0A, 0x0A] @ p1 @ [0x0A, 0x0A] @ p2) = [p0, p1, p2]"
proof -
  from assms(2) have "p1 @ 0x0A # 0x0A # p2 = [] \<or> hd (p1 @ 0x0A # 0x0A # p2) \<noteq> 0x0A"
    by (simp add: is_paragraph_def)
  with assms(1)
  have "split_runs (\<lambda>c. c = 0x0A) 2 (p0 @ 0x0A # 0x0A # (p1 @ 0x0A # 0x0A # p2))
        = p0 # split_runs (\<lambda>c. c = 0x0A) 2 (p1 @ 0x0A # 0x0A # p2)"
    by (intro split_runs_paragraph) (simp_all add: is_paragraph_def)
  moreover from assms(2,3)
  have "split_runs (\<lambda>c. c = 0x0A) 2 (p1 @ 0x0A # 0x0A # p2) = p1 # split_runs (\<lambda>c. c = 0x0A) 2 p2"
    by (intro split_runs_paragraph) (simp_all add: is_paragraph_def)
  moreover from assms(3) have "split_runs (\<lambda>c. c = 0x0A) 2 p2 = [p2]"
    by (simp add: split_runs_paragraph_only is_paragraph_def)
  ultimately show ?thesis
    using assms by (simp add: paragraphs_def is_paragraph_def)
qed

lemma length_push_parts: "length (push_parts ttl dt u parts) = length parts"
  by (simp add: push_parts_def enumerate_eq_zip)

lemma nth_push_parts:
  "idx < length parts \<Longrightarrow>
   push_parts ttl dt u parts ! idx =
     \<lparr>chunk_id = u @ js ''#p'' @ js_decimal idx, chunk_text = take 2000 (parts ! idx),
      chunk_title = ttl, chunk_date = dt, chunk_url = u\<rparr>"
  by (simp add: push_parts_def nth_enumerate_eq)

lemma push_parts_three:
  "push_parts ttl dt u [p0, p1, p2] =
     [\<lparr>chunk_id = u @ js ''#p0'', chunk_text = take 2000 p0,
       chunk_title = ttl, chunk_date = dt, chunk_url = u\<rparr>,
      \<lparr>chunk_id = u @ js ''#p1'', chunk_text = take 2000 p1,
       chunk_title = ttl, chunk_date = dt, chunk_url = u\<rparr>,
      \<lparr>chunk_id = u @ js ''#p2'', chunk_text = take 2000 p2,
       chunk_title = ttl, chunk_date = dt, chunk_url = u\<rparr>]"
proof -
  have d: "js ''#p'' @ js_decimal 0 = js ''#p0''" "js ''#p'' @ js_decimal 1 = js ''#p1''"
    "js ''#p'' @ js_decimal 2 = js ''#p2''"
    by code_simp+
  have e: "enumerate 0 [p0, p1, p2] = [(0, p0), (1, p1), (2, p2)]"
    by (simp add: enumerate_eq_zip upt_rec)
  show ?thesis
    by (simp only: push_parts_def e list.map prod.case d)
qed

lemma paragraphs_nonempty: "p \<in> set (paragraphs text) \<Longrightarrow> p \<noteq> []"
  by (simp add: paragraphs_def)

lemma paragraphs_blank_line_free: "p \<in> set (paragraphs text) \<Longrightarrow> blank_line_free p"
  using split_runs_blank_line_free [of "text"] by (simp add: paragraphs_def)

lemma chunks_of_record:
  assumes "text_field t = Some text" "text \<noteq> []"
  shows "transcription_chunks t =
           push_parts (or_else (meta_field t title) (js ''Untitled''))
             (or_else (meta_field t record_date) (or_else (meta_field t estimated_date) []))
             (or_else (meta_field t url) []) (paragraphs text)"
    and "video_chunks t =
           push_parts (or_else (meta_field t title) (js ''Untitled''))
             (or_else (meta_field t estimated_date) [])
             (or_else (meta_field t url) []) (paragraphs text)"
  using assms by (simp_all add: transcription_chunks_def video_chunks_def or_else_def Let_def)

lemma chunks_of_empty:
  assumes "text_field t = None \<or> text_field t = Some []"
  shows "transcription_chunks t = []" "video_chunks t = []"
  using assms by (auto simp: transcription_chunks_def video_chunks_def or_else_def Let_def)

lemma filter_concat_split_runs:
  "filter (\<lambda>c. \<not> P c) (concat (split_runs P k s)) = filter (\<lambda>c. \<not> P c) s"
proof (induction P k s rule: split_runs.induct)
  case (1 P k)
  show ?case by simp
next
  case (2 P k c cs)
  show ?case
  proof (cases "P c \<and> k \<le> Suc (length (takeWhile P cs))")
    case True
    with 2(1) show ?thesis
      by (simp add: filter_not_dropWhile)
  next
    case False
    with 2(2) show ?thesis
      by (cases "split_runs P k cs") auto
  qed
qed

lemma filter_concat_paragraphs:
  "filter (\<lambda>c. c \<noteq> 0x0A) (concat (paragraphs s)) = filter (\<lambda>c. c \<noteq> 0x0A) s"
  using filter_concat_split_runs [of "\<lambda>c. c = 0x0A" 2 s]
  by (simp add: paragraphs_def concat_filter_nonempty)

lemma paragraphs_long: "paragraphs (replicate 2001 0x61) = [replicate 2001 0x61]"
proof -
  have "split_runs (\<lambda>c. c = 0x0A) 2 (replicate 2001 0x61) = [replicate 2001 0x61]"
    by (rule split_runs_no_sep) simp
  then show ?thesis by (simp add: paragraphs_def)
qed

section \<open>Loader and session\<close>

lemma fetch_loop_first_success:
  "k < length paths \<Longrightarrow> \<forall>j<k. isl (attempt fetch parse (paths ! j)) \<Longrightarrow>
   attempt fetch parse (paths ! k) = Inr data \<Longrightarrow>
   fetch_loop fetch parse lastErr paths = Inr data"
proof (induction paths arbitrary: k lastErr)
  case Nil
  then show ?case by simp
next
  case (Cons p ps)
  show ?case
  proof (cases k)
    case 0
    with Cons.prems show ?thesis by simp
  next
    case (Suc m)
    with Cons.prems have "isl (attempt fetch parse p)" by auto
    then obtain e where e: "attempt fetch parse p = Inl e" by (auto simp: isl_def)
    from Suc Cons.prems have "fetch_loop fetch parse (Some e) ps = Inr data"
      by (intro Cons.IH [of m]) auto
    with e show ?thesis by simp
  qed
qed

lemma fetch_loop_all_failed:
  "\<forall>p\<in>set paths. isl (attempt fetch parse p) \<Longrightarrow>
   fetch_loop fetch parse lastErr paths =
     (if paths = []
      then Inl (case lastErr of None \<Rightarrow> Error (js ''All fetch attempts failed'') | Some e \<Rightarrow> e)
      else attempt fetch parse (last paths))"
proof (induction paths arbitrary: lastErr)
  case Nil
  show ?case by simp
next
  case (Cons p ps)
  then obtain e where e: "attempt fetch parse p = Inl e" by (auto simp: isl_def)
  with Cons show ?case by auto
qed

lemma fetch_loop_failure:
  "fetch_loop fetch parse lastErr paths = Inl e \<Longrightarrow> \<forall>p\<in>set paths. isl (attempt fetch parse p)"
  by (induction paths arbitrary: lastErr) (auto split: sum.splits)

lemma dropWhile_snoc: "\<not> P x \<Longrightarrow> dropWhile P (xs @ [x]) = dropWhile P xs @ [x]"
  by (induction xs) auto

lemma trim_markup: "starts_with s (js ''<'') \<Longrightarrow> starts_with (trim s) (js ''<'')"
proof -
  assume "starts_with s (js ''<'')"
  then obtain rest where s: "s = 0x3C # rest"
    by (cases s) (auto simp: starts_with_def js_def)
  have n: "\<not> is_js_space 0x3C" by (simp add: is_js_space_def)
  then have "dropWhile is_js_space (rev rest @ [0x3C]) = dropWhile is_js_space (rev rest) @ [0x3C]"
    by (rule dropWhile_snoc)
  with n s show ?thesis
    by (simp add: trim_def starts_with_def js_def)
qed

lemma attempt_success:
  "attempt fetch parse p = Inr data \<Longrightarrow>
   \<exists>res t. fetch p = Inr res \<and> ok res \<and> body_text res = Inr t \<and> parse t = Inr data"
  by (auto simp: attempt_def Let_def split: sum.splits if_splits)

lemma attempt_markup:
  assumes "fetch p = Inr res" "ok res" "body_text res = Inr t" "starts_with (trim t) (js ''<'')"
    and "\<forall>t. starts_with (trim t) (js ''<'') \<longrightarrow> isl (parse t)"
  shows "isl (attempt fetch parse p)"
  using assms by (auto simp: attempt_def Let_def)

lemma addMsg_keeps [simp]:
  "index (addMsg st r t m) = index st" "docs (addMsg st r t m) = docs st"
  "queryInput (addMsg st r t m) = queryInput st"
  by (simp_all add: addMsg_def)

lemma submit_keeps:
  "index (fst (submit U relay st useLlm)) = index st"
  "docs (fst (submit U relay st useLlm)) = docs st"
  by (auto simp: submit_def Let_def split: option.splits sum.splits)

lemma loadData_index:
  "index st = None \<or> index st = Some (buildIndex U (docs st)) \<Longrightarrow>
   index (loadData U fetch parse st) = None
   \<or> index (loadData U fetch parse st) = Some (buildIndex U (docs (loadData U fetch parse st)))"
  by (auto simp: loadData_def Let_def split: sum.splits)

lemma reachable_index:
  "reachable U st \<Longrightarrow> index st = None \<or> index st = Some (buildIndex U (docs st))"
proof (induction rule: reachable.induct)
  case start
  show ?case by (simp add: initial_def)
next
  case (typed st input)
  then show ?case by simp
next
  case (loaded st fetch parse)
  from loaded.IH show ?case by (rule loadData_index)
next
  case (submitted st relay useLlm)
  then show ?case by (simp add: submit_keeps)
qed

lemma submit_not_ready:
  "index st = None \<Longrightarrow> trim (queryInput st) \<noteq> [] \<Longrightarrow>
   submit U relay st useLlm =
     (addMsg ((addMsg st User (Plain (trim (queryInput st))) None)\<lparr>queryInput := []\<rparr>)
        Bot IndexNotBuilt None, [])"
  by (simp add: submit_def Let_def)

lemma submit_blank:
  "trim (queryInput st) = [] \<Longrightarrow> submit U relay st useLlm = (st, [])"
  by (simp add: submit_def)

lemma submit_calls:
  "c \<in> set (snd (submit U relay st useLlm)) \<Longrightarrow>
   \<exists>idx. index st = Some idx \<and> c = (trim (queryInput st), idx, 8)"
  by (auto simp: submit_def Let_def split: option.splits sum.splits if_splits)

lemma submit_ready:
  "index st = Some idx \<Longrightarrow> trim (queryInput st) \<noteq> [] \<Longrightarrow>
   snd (submit U relay st useLlm) = [(trim (queryInput st), idx, 8)]"
  by (auto simp: submit_def Let_def split: sum.splits)

lemma loadData_success:
  "fetchJsonWithFallback fetch parse
     [js ''./real_transcriptions.json'', js ''../real_transcriptions.json''] = Inr data \<Longrightarrow>
   index (loadData U fetch parse st) = Some (buildIndex U (loadData_items data))
   \<and> docs (loadData U fetch parse st) = loadData_items data
   \<and> queryInput (loadData U fetch parse st) = queryInput st"
  by (simp add: loadData_def Let_def)

lemma example_attempts:
  "attempt example_fetch example_parse (js ''./real_transcriptions.json'')
     = Inl (Error (js ''404 Not Found''))"
  "attempt example_fetch example_parse (js ''../real_transcriptions.json'') = Inr example_data"
  "attempt example_fetch example_parse (js ''index.html'')
     = Inl (Error (js ''Received HTML instead of JSON''))"
  "attempt example_fetch example_parse (js ''x'') = Inl TypeError"
  "attempt example_fetch example_parse (js ''copy.txt'') = Inr example_data"
  "attempt example_fetch example_parse (js ''cut.json'') = Inl TypeError"
  "attempt example_fetch example_parse (js ''page.json'') = Inl SyntaxError"
  by code_simp+

lemma example_responses:
  "example_fetch (js ''index.html'')
     = Inr \<lparr>ok = True, status = 200, statusText = js ''OK'',
            content_type = Some (js ''text/html''), body_text = Inr (js '' <html>'')\<rparr>"
  "starts_with (trim (js '' <html>'')) (js ''<'')"
  "\<not> includes_str (js ''text/html'') (js ''application/json'')"
  "example_fetch (js ''copy.txt'')
     = Inr \<lparr>ok = True, status = 200, statusText = js ''OK'',
            content_type = None, body_text = Inr example_body\<rparr>"
  "trim example_body = example_body"
  "\<not> starts_with example_body (js ''<'')"
  "example_parse example_body = Inr example_data"
  "example_fetch (js ''cut.json'')
     = Inr \<lparr>ok = True, status = 200, statusText = js ''OK'',
            content_type = Some (js ''application/json''), body_text = Inl TypeError\<rparr>"
  "trim (js '' <html>'') = js ''<html>''"
  "includes_str (js ''text/json; application/json'') (js ''application/json'')"
  "example_fetch (js ''page.json'')
     = Inr \<lparr>ok = True, status = 200, statusText = js ''OK'',
            content_type = Some (js ''application/json''), body_text = Inr (js ''<html>'')\<rparr>"
  "includes_str (js ''application/json'') (js ''application/json'')"
  "starts_with (trim (js ''<html>'')) (js ''<'')"
  "example_parse (js ''<html>'') = Inl SyntaxError"
  "trim ([0xFEFF, 0x0A, 0x09, 0x20] @ js ''<a> b'' @ [0x0D, 0x2028, 0xA0, 0x3000]) = js ''<a> b''"
  by code_simp+

lemma example_load:
  "fetchJsonWithFallback example_fetch example_parse
     [js ''./real_transcriptions.json'', js ''../real_transcriptions.json''] = Inr example_data"
  by (simp add: fetchJsonWithFallback_def example_attempts)

lemma trim_dog: "trim (js '' dog '') \<noteq> []"
  by code_simp

lemma cat_scores:
  "spec_score (buildIndex ascii_tables (cat_dog blank blank)) (tokenize ascii_tables (js ''cat'')) 0
     = (1 + ln 2) * ln 2"
  "spec_score (buildIndex ascii_tables (cat_dog blank blank)) (tokenize ascii_tables (js ''cat'')) 1
     = ln 2"
proof -
  note f = cat_dog_facts [OF ascii_tables_agree, of blank blank]
  note n = cat_dog_index(3) [OF ascii_tables_agree, of blank blank]
  have i: "spec_idf (buildIndex ascii_tables (cat_dog blank blank)) (js ''cat'') = ln 2"
    by (simp add: spec_idf_def f n)
  show "spec_score (buildIndex ascii_tables (cat_dog blank blank)) (tokenize ascii_tables (js ''cat'')) 0
     = (1 + ln 2) * ln 2"
    by (simp add: spec_score_def spec_weight_def cat_dog_tokens f [unfolded One_nat_def] i)
  show "spec_score (buildIndex ascii_tables (cat_dog blank blank)) (tokenize ascii_tables (js ''cat'')) 1
     = ln 2"
    by (simp add: spec_score_def spec_weight_def cat_dog_tokens f [unfolded One_nat_def] i)
qed

section \<open>Scores with the numbers of the engine\<close>

lemma chunk_score_in_exact: "chunk_score_in exact idx i qc s = chunk_score idx i qc s"
  by (induction qc arbitrary: s) (auto simp: exact_def Let_def)

lemma chunk_scores_in_exact: "chunk_scores_in exact idx qc ix = chunk_scores idx qc ix"
  by (induction ix) (auto simp: chunk_score_in_exact split: sum.splits)

lemma ranking_in_exact: "ranking_in exact U q idx = ranking U q idx"
  by (simp add: ranking_in_def ranking_def chunk_scores_in_exact)

lemma score_in_exact: "score_in exact U q idx k = score U q idx k"
  by (simp add: score_in_def score_def ranking_in_exact)

lemma keys_update:
  "map fst (AList.update k v al) = (if k \<in> fst ` set al then map fst al else map fst al @ [k])"
  by (induction al) auto

lemma keys_bump_list:
  "map fst (bump m t) = (if t \<in> set (map fst m) then map fst m else map fst m @ [t])"
  by (simp add: bump_def keys_update)

lemma first_terms_snoc:
  "first_terms (ts @ [t]) = (if t \<in> set ts then first_terms ts else first_terms ts @ [t])"
  by (simp add: first_terms_def)

lemma keys_count_terms_list: "map fst (count_terms ts) = first_terms ts"
proof (induction ts rule: rev_induct)
  case Nil
  show ?case by (simp add: count_terms_def first_terms_def)
next
  case (snoc t ts)
  have "map fst (count_terms (ts @ [t])) = map fst (bump (count_terms ts) t)"
    by (simp add: count_terms_def)
  also have "\<dots> = (if t \<in> set ts then first_terms ts else first_terms ts @ [t])"
    using keys_count_terms [of ts] snoc.IH by (simp add: keys_bump_list del: set_map)
  finally show ?case by (simp add: first_terms_snoc)
qed

lemma count_terms_entries:
  "count_terms ts = map (\<lambda>t. (t, count_list ts t)) (first_terms ts)"
proof -
  have "p = (fst p, count_list ts (fst p))" if "p \<in> set (count_terms ts)" for p
  proof -
    obtain t q where tq: "p = (t, q)" by (cases p)
    with that have "get0 (count_terms ts) t = q"
      using map_of_distinct_get0 [OF distinct_count_terms] by blast
    with tq show ?thesis by (simp add: get0_count_terms)
  qed
  then have "map (\<lambda>p. p) (count_terms ts) = map (\<lambda>p. (fst p, count_list ts (fst p))) (count_terms ts)"
    by (intro map_cong) auto
  then have "count_terms ts = map (\<lambda>t. (t, count_list ts t)) (map fst (count_terms ts))"
    by (simp add: comp_def)
  then show ?thesis by (simp only: keys_count_terms_list)
qed

lemma chunk_score_in_foldl:
  "i < length (tf idx) \<Longrightarrow>
   chunk_score_in A idx i (map (\<lambda>t. (t, count_list qs t)) ks) s =
     Inr (foldl (\<lambda>s t. if get0 (df idx) t = 0 then s
                        else rnd A (s + rnd A (spec_weight_in A idx qs i t * spec_idf_in A idx t)))
            s ks)"
  by (induction ks arbitrary: s) (simp_all add: Let_def spec_weight_in_def spec_idf_in_def)

lemma chunk_score_in_spec:
  "i < length (tf idx) \<Longrightarrow>
   chunk_score_in A idx i (count_terms qs) 0 = Inr (spec_score_in A idx qs i)"
  using chunk_score_in_foldl [of i idx A qs "first_terms qs" 0]
  by (simp add: count_terms_entries [symmetric] spec_score_in_def)

lemma chunk_scores_in_upt:
  "(\<And>i. i \<in> set ix \<Longrightarrow> chunk_score_in A idx i qc 0 = Inr (f i)) \<Longrightarrow>
   chunk_scores_in A idx qc ix = Inr (map (\<lambda>i. (i, f i)) ix)"
  by (induction ix) auto

lemma chunk_scores_in_buildIndex:
  "chunk_scores_in A (buildIndex U its) (count_terms (tokenize U q)) [0..<length its] =
     Inr (map (\<lambda>i. (i, spec_score_in A (buildIndex U its) (tokenize U q) i)) [0..<length its])"
  by (intro chunk_scores_in_upt chunk_score_in_spec) (simp add: buildIndex_sel)

lemma score_in_spec:
  "score_in A U q (buildIndex U its) k =
     Inr (map (\<lambda>(i, s). with_score (its ! i) s)
           (slice0 (sort_key (\<lambda>(i, s). - s)
                     (map (\<lambda>i. (i, spec_score_in A (buildIndex U its) (tokenize U q) i))
                          [0..<length its]))
                   k))"
  using chunk_scores_in_buildIndex [of A U its q]
  by (simp add: score_in_def ranking_in_def buildIndex_sel)

lemma foldl_cond_add:
  "foldl (\<lambda>s t. if c t then s else s + h t) s ks
     = s + sum_list (map (\<lambda>t. if c t then 0 else h t) ks)"
  for s :: real
  by (induction ks arbitrary: s) auto

lemma first_terms_set: "set (first_terms qs) = set qs" "distinct (first_terms qs)"
  by (simp_all add: first_terms_def)

lemma spec_score_in_exact: "spec_score_in exact idx qs i = spec_score idx qs i"
proof -
  let ?g = "\<lambda>t. if get0 (df idx) t = 0 then 0 else spec_weight idx qs i t * spec_idf idx t"
  have w: "spec_weight_in exact idx qs i t = spec_weight idx qs i t"
    and d: "spec_idf_in exact idx t = spec_idf idx t" for t
    by (simp_all add: spec_weight_in_def spec_weight_def spec_idf_in_def spec_idf_def exact_def)
  have "spec_score_in exact idx qs i
        = foldl (\<lambda>s t. if get0 (df idx) t = 0 then s
                         else s + spec_weight idx qs i t * spec_idf idx t) 0 (first_terms qs)"
  proof -
    have r: "rnd exact x = x" for x by (simp add: exact_def)
    show ?thesis unfolding spec_score_in_def w d r ..
  qed
  also have "\<dots> = sum_list (map ?g (first_terms qs))"
    by (simp add: foldl_cond_add)
  also have "\<dots> = sum ?g (set (first_terms qs))"
    by (rule sum_list_distinct_conv_sum_set) (rule first_terms_set)
  finally show ?thesis
    by (simp add: spec_score_def first_terms_set)
qed

lemma spec_score_in_unknown:
  "\<forall>t\<in>set qs. get0 (df idx) t = 0 \<Longrightarrow> spec_score_in A idx qs i = 0"
proof -
  assume a: "\<forall>t\<in>set qs. get0 (df idx) t = 0"
  have "foldl (\<lambda>s t. if get0 (df idx) t = 0 then s
                      else rnd A (s + rnd A (spec_weight_in A idx qs i t * spec_idf_in A idx t)))
          s ks = s" if "\<forall>t\<in>set ks. get0 (df idx) t = 0" for ks and s :: real
    using that by (induction ks arbitrary: s) auto
  with a show ?thesis
    by (simp add: spec_score_in_def first_terms_set)
qed

lemma score_in_unknown:
  assumes "\<forall>t\<in>set (tokenize U q). get0 (df (buildIndex U its)) t = 0" and "0 \<le> k"
  shows "score_in A U q (buildIndex U its) k = Inr (map (\<lambda>c. with_score c 0) (take (nat k) its))"
proof -
  let ?idx = "buildIndex U its"
  have z: "map (\<lambda>i. (i, spec_score_in A ?idx (tokenize U q) i)) [0..<length its]
           = map (\<lambda>i. (i, 0)) [0..<length its]"
    using assms(1) by (simp add: spec_score_in_unknown)
  have s: "sort_key (\<lambda>(i, s). - s) (map (\<lambda>i. (i, 0::real)) [0..<length its])
           = map (\<lambda>i. (i, 0)) [0..<length its]"
    by (rule sort_key_const [where c = 0]) auto
  show ?thesis
    using assms(2) map_nth_take [of "\<lambda>c. with_score c 0" its "nat k"]
    by (simp add: score_in_spec z s slice0_def take_map comp_def)
qed

lemma ranks_before_nth:
  assumes "sorted_wrt ranks_before r" "a < b" "b < length r"
  shows "snd (r ! b) \<le> snd (r ! a) \<and> (snd (r ! a) = snd (r ! b) \<longrightarrow> fst (r ! a) < fst (r ! b))"
proof -
  from assms have "ranks_before (r ! a) (r ! b)"
    by (rule sorted_wrt_nth_less)
  then show ?thesis by (auto simp: ranks_before_def)
qed

section \<open>Paragraphs and decimal numbers\<close>

lemma dropWhile_replicate_LF:
  "rest = [] \<or> hd rest \<noteq> c \<Longrightarrow> dropWhile (\<lambda>x. x = c) (replicate m c @ rest) = rest"
  by (induction m) (auto simp: hd_conv_nth dest!: hd_Cons_tl [symmetric, THEN sym] intro: dropWhile_eq_self_iff [THEN iffD2])

lemma split_runs_run:
  assumes "blank_line_free p" "p = [] \<or> last p \<noteq> 0x0A" "rest = [] \<or> hd rest \<noteq> 0x0A" "2 \<le> n"
  shows "split_runs (\<lambda>c. c = 0x0A) 2 (p @ replicate n 0x0A @ rest)
         = p # split_runs (\<lambda>c. c = 0x0A) 2 rest"
proof -
  from assms(4) obtain m where n: "n = Suc (Suc m)"
    by (metis Suc_le_D numeral_2_eq_2 Suc_le_mono)
  have d: "dropWhile (\<lambda>x. x = 0x0A) (replicate m 0x0A @ rest) = rest"
    using assms(3) by (rule dropWhile_replicate_LF)
  have "split_runs (\<lambda>c. c = 0x0A) 2 (0x0A # 0x0A # replicate m 0x0A @ rest)
        = [] # split_runs (\<lambda>c. c = 0x0A) 2 rest"
    by (simp add: d)
  then have r: "split_runs (\<lambda>c. c = 0x0A) 2 (0x0A # 0x0A # (replicate m 0x0A @ rest))
        = [] # split_runs (\<lambda>c. c = 0x0A) 2 rest"
    by simp
  have "split_runs (\<lambda>c. c = 0x0A) 2 (p @ 0x0A # 0x0A # (replicate m 0x0A @ rest))
        = p # split_runs (\<lambda>c. c = 0x0A) 2 rest"
    using assms(1,2)
  proof (induction p)
    case Nil
    show ?case using r by simp
  next
    case (Cons c p)
    show ?case
    proof (cases p)
      case Nil
      with Cons show ?thesis using r by auto
    next
      case (Cons d q)
      with Cons.prems Cons.IH show ?thesis by auto
    qed
  qed
  then show ?thesis by (simp add: n)
qed

lemma paragraphs_single:
  "blank_line_free p \<Longrightarrow> paragraphs p = (if p = [] then [] else [p])"
  by (simp add: paragraphs_def split_runs_paragraph_only)

lemma paragraphs_run:
  assumes "blank_line_free p" "p = [] \<or> last p \<noteq> 0x0A" "rest = [] \<or> hd rest \<noteq> 0x0A" "2 \<le> n"
  shows "paragraphs (p @ replicate n 0x0A @ rest) = (if p = [] then [] else [p]) @ paragraphs rest"
  using split_runs_run [OF assms] by (simp add: paragraphs_def)

lemma decimal_value_snoc: "decimal_value (ds @ [d]) = 10 * decimal_value ds + (unat d - 48)"
  by (simp add: decimal_value_def)

lemma unat_digit: "k < 10 \<Longrightarrow> unat (48 + of_nat k :: cu) = 48 + k"
proof -
  assume k: "k < 10"
  have "(48 + of_nat k :: cu) = of_nat (48 + k)" by simp
  then have "unat (48 + of_nat k :: cu) = (48 + k) mod 2 ^ LENGTH(16)"
    by (simp only: unat_of_nat)
  with k show ?thesis by simp
qed

lemma decimal_value_js_decimal: "decimal_value (js_decimal n) = n"
proof (induction n rule: js_decimal.induct)
  case (1 n)
  show ?case
  proof (cases "n < 10")
    case True
    then show ?thesis
      by (subst js_decimal.simps) (simp add: decimal_value_def unat_digit)
  next
    case False
    with 1 have "decimal_value (js_decimal (n div 10)) = n div 10" by simp
    with False show ?thesis
      by (subst js_decimal.simps) (simp add: decimal_value_snoc unat_digit)
  qed
qed

lemma digits_js_decimal: "\<forall>d\<in>set (js_decimal n). 48 \<le> unat d \<and> unat d \<le> 57"
proof (induction n rule: js_decimal.induct)
  case (1 n)
  show ?case
  proof (cases "n < 10")
    case True
    then show ?thesis
      by (subst js_decimal.simps) (simp add: unat_digit)
  next
    case False
    with 1 have "\<forall>d\<in>set (js_decimal (n div 10)). 48 \<le> unat d \<and> unat d \<le> 57" by simp
    with False show ?thesis
      by (subst js_decimal.simps) (simp add: unat_digit)
  qed
qed

lemma js_decimal_nonempty: "js_decimal n \<noteq> []"
  by (subst js_decimal.simps) simp

lemma leading_digit_js_decimal: "n = 0 \<or> unat (hd (js_decimal n)) \<noteq> 48"
proof (induction n rule: js_decimal.induct)
  case (1 n)
  show ?case
  proof (cases "n < 10")
    case True
    then show ?thesis
      by (subst js_decimal.simps) (auto simp: unat_digit)
  next
    case False
    then have "n div 10 \<noteq> 0" by simp
    with 1 False have "unat (hd (js_decimal (n div 10))) \<noteq> 48" by blast
    with False show ?thesis
      by (subst js_decimal.simps) (simp add: js_decimal_nonempty)
  qed
qed

lemma loadData_items_cases:
  "loadData_items data =
     concat (map transcription_chunks (case transcriptions data of None \<Rightarrow> [] | Some ts \<Rightarrow> ts))
     @ concat (map video_chunks (case videos data of None \<Rightarrow> [] | Some vs \<Rightarrow> vs))"
  by (simp add: loadData_items_def split: option.splits)

section \<open>Attempts\<close>

lemma starts_with_iff: "starts_with s p \<longleftrightarrow> (\<exists>b. s = p @ b)"
proof
  assume "starts_with s p"
  then have "s = p @ drop (length p) s"
    by (metis append_take_drop_id starts_with_def)
  then show "\<exists>b. s = p @ b" ..
next
  assume "\<exists>b. s = p @ b"
  then show "starts_with s p" by (auto simp: starts_with_def)
qed

lemma includes_str_iff: "includes_str s sub \<longleftrightarrow> (\<exists>a b. s = a @ sub @ b)"
proof (induction s)
  case Nil
  show ?case by simp
next
  case (Cons c cs)
  show ?case
  proof
    assume "includes_str (c # cs) sub"
    then consider "starts_with (c # cs) sub" | "includes_str cs sub" by auto
    then show "\<exists>a b. c # cs = a @ sub @ b"
    proof cases
      case 1
      then obtain b where "c # cs = sub @ b" by (auto simp: starts_with_iff)
      then have "c # cs = [] @ sub @ b" by simp
      then show ?thesis by blast
    next
      case 2
      with Cons.IH obtain a b where "cs = a @ sub @ b" by blast
      then have "c # cs = (c # a) @ sub @ b" by simp
      then show ?thesis by blast
    qed
  next
    assume "\<exists>a b. c # cs = a @ sub @ b"
    then obtain a b where ab: "c # cs = a @ sub @ b" by blast
    show "includes_str (c # cs) sub"
    proof (cases a)
      case Nil
      with ab have "starts_with (c # cs) sub" by (auto simp: starts_with_iff)
      then show ?thesis by simp
    next
      case (Cons x a')
      with ab have "cs = a' @ sub @ b" by simp
      with Cons.IH have "includes_str cs sub" by blast
      then show ?thesis by simp
    qed
  qed
qed

lemma trim_decomposition:
  "\<exists>a b. s = a @ trim s @ b \<and> (\<forall>c\<in>set a. is_js_space c) \<and> (\<forall>c\<in>set b. is_js_space c)"
proof -
  let ?d = "dropWhile is_js_space s"
  have 1: "s = takeWhile is_js_space s @ ?d" by simp
  have "rev ?d = takeWhile is_js_space (rev ?d) @ dropWhile is_js_space (rev ?d)" by simp
  then have "rev (rev ?d) = rev (takeWhile is_js_space (rev ?d) @ dropWhile is_js_space (rev ?d))"
    by (rule arg_cong)
  then have 2: "?d = trim s @ rev (takeWhile is_js_space (rev ?d))"
    by (simp only: rev_rev_ident rev_append trim_def)
  from 1 2 have "s = takeWhile is_js_space s @ trim s @ rev (takeWhile is_js_space (rev ?d))"
    by simp
  moreover have "\<forall>c\<in>set (takeWhile is_js_space s). is_js_space c"
    by (auto dest: set_takeWhileD)
  moreover have "\<forall>c\<in>set (rev (takeWhile is_js_space (rev ?d))). is_js_space c"
    by (auto dest: set_takeWhileD)
  ultimately show ?thesis by blast
qed

lemma trim_ends:
  "trim s = [] \<or> (\<not> is_js_space (hd (trim s)) \<and> \<not> is_js_space (last (trim s)))"
proof (cases "trim s = []")
  case True
  then show ?thesis by simp
next
  case False
  let ?d = "dropWhile is_js_space s"
  let ?e = "dropWhile is_js_space (rev ?d)"
  from False have e: "?e \<noteq> []" by (simp add: trim_def)
  then have "\<not> is_js_space (hd ?e)" by (rule hd_dropWhile)
  with e have l: "\<not> is_js_space (last (trim s))"
    by (simp add: trim_def last_rev)
  from e have d: "?d \<noteq> []" by (cases "?d = []") simp_all
  then have h: "\<not> is_js_space (hd ?d)" by (rule hd_dropWhile)
  have "rev ?d = takeWhile is_js_space (rev ?d) @ ?e" by simp
  then have "rev (rev ?d) = rev (takeWhile is_js_space (rev ?d) @ ?e)" by (rule arg_cong)
  then have "?d = trim s @ rev (takeWhile is_js_space (rev ?d))"
    by (simp only: rev_rev_ident rev_append trim_def)
  with False have "hd ?d = hd (trim s)"
    by (metis hd_append2)
  with h l show ?thesis by simp
qed

lemma attempt_body_failed:
  "fetch p = Inr res \<Longrightarrow> ok res \<Longrightarrow> body_text res = Inl e \<Longrightarrow> attempt fetch parse p = Inl e"
  by (simp add: attempt_def Let_def)

lemma attempt_html:
  "fetch p = Inr res \<Longrightarrow> ok res \<Longrightarrow> body_text res = Inr t \<Longrightarrow>
   \<not> includes_str (case content_type res of None \<Rightarrow> [] | Some c \<Rightarrow> c) (js ''application/json'') \<Longrightarrow>
   starts_with (trim t) (js ''<'') \<Longrightarrow>
   attempt fetch parse p = Inl (Error (js ''Received HTML instead of JSON''))"
  by (simp add: attempt_def Let_def)

lemma attempt_parsed:
  "fetch p = Inr res \<Longrightarrow> ok res \<Longrightarrow> body_text res = Inr t \<Longrightarrow>
   includes_str (case content_type res of None \<Rightarrow> [] | Some c \<Rightarrow> c) (js ''application/json'')
   \<or> \<not> starts_with (trim t) (js ''<'') \<Longrightarrow>
   attempt fetch parse p = parse t"
  by (auto simp: attempt_def Let_def)

section \<open>Claims about the index and the scorer\<close>

text \<open>
  Claim C1, as stated, fails. It says that a query term that is absent from chunk \<open>i\<close>
  adds 0 to the score of chunk \<open>i\<close>. In the corpus of the texts \<open>cat dog\<close> and \<open>dog dog\<close>
  the term \<open>cat\<close> does not occur in chunk 1, and yet the query \<open>cat\<close> gives chunk 1 the
  score \<open>1 * (1 + ln (1 + 0)) * ln (3 / 1.5) = ln 2\<close>, which is not 0: \<open>score\<close> returns chunk 0
  with the score \<open>(1 + ln 2) * ln 2\<close> and then chunk 1 with the score \<open>ln 2\<close>.
\<close>

theorem absent_term_counterexample:
  "get0 (tf (buildIndex ascii_tables (cat_dog blank blank)) ! 1) (js ''cat'') = 0
   \<and> chunk_scores (buildIndex ascii_tables (cat_dog blank blank))
        (count_terms (tokenize ascii_tables (js ''cat''))) [0..<2]
       = Inr [(0, (1 + ln 2) * ln 2), (1, ln 2)]
   \<and> map score_value
        (projr (score ascii_tables (js ''cat'') (buildIndex ascii_tables (cat_dog blank blank)) 8))
       = [(1 + ln 2) * ln 2, ln 2]
   \<and> ln 2 \<noteq> (0::real)"
proof -
  note f = cat_dog_facts [OF ascii_tables_agree, of blank blank]
  have l: "[0..<length (cat_dog blank blank)] = [0, 1]"
    by (simp add: f upt_rec)
  have l2: "[0..<2] = [0, 1::nat]"
    by (simp add: upt_rec)
  have p: "(0::real) < ln 2" by simp
  then have o: "ln 2 \<le> (1 + ln 2) * ln (2::real)"
    by (simp add: algebra_simps)
  have s: "sort_key (\<lambda>(i, s). - s) [(0::nat, (1 + ln 2) * ln (2::real)), (1, ln 2)]
           = [(0, (1 + ln 2) * ln 2), (1, ln 2)]"
    using o by simp
  have a: "chunk_scores (buildIndex ascii_tables (cat_dog blank blank))
        (count_terms (tokenize ascii_tables (js ''cat''))) [0..<2]
       = Inr [(0, (1 + ln 2) * ln 2), (1, ln 2)]"
    using chunk_scores_buildIndex [of ascii_tables "cat_dog blank blank" "js ''cat''"]
    by (simp only: l l2 list.map cat_scores)
  have b: "map score_value
        (projr (score ascii_tables (js ''cat'') (buildIndex ascii_tables (cat_dog blank blank)) 8))
       = [(1 + ln 2) * ln 2, ln 2]"
    by (simp only: score_spec l list.map cat_scores s)
       (simp add: slice0_def score_value_with_score)
  from f(5) a b p show ?thesis by simp
qed

text \<open>
  Claim C1, amended. For every query and every corpus, the score that \<open>score\<close> computes
  for chunk \<open>i\<close> of the index built by \<open>buildIndex\<close> is the sum, over the distinct query
  terms \<open>t\<close>, of \<open>qtf[t] * (1 + ln (1 + tf[i][t])) * ln ((N + 1) / (df[t] + 0.5))\<close>, where a
  term with document frequency 0 adds nothing. The program evaluates this sum with the
  numbers of the engine: term by term in the order in which the terms first occur in the
  query (the entries of \<open>qCounts\<close> are these terms with their counts), each operation
  rounded; with exact arithmetic it is the sum of the formula. \<open>score\<close> returns these
  scores, sorted and cut to \<open>topK\<close>, with the chunks. A query term that occurs in the
  corpus but not in chunk \<open>i\<close> adds \<open>qtf[t] * idf(t)\<close>, which is positive in exact
  arithmetic: only the logarithmic part \<open>ln (1 + 0)\<close> of its weight is 0.
\<close>

theorem score_formula:
  "chunk_scores_in A (buildIndex U its) (count_terms (tokenize U q)) [0..<length its]
     = Inr (map (\<lambda>i. (i, spec_score_in A (buildIndex U its) (tokenize U q) i)) [0..<length its])
   \<and> score_in A U q (buildIndex U its) k
     = Inr (map (\<lambda>(i, s). with_score (its ! i) s)
             (slice0 (sort_key (\<lambda>(i, s). - s)
                       (map (\<lambda>i. (i, spec_score_in A (buildIndex U its) (tokenize U q) i))
                            [0..<length its])) k))
   \<and> count_terms (tokenize U q)
     = map (\<lambda>t. (t, count_list (tokenize U q) t)) (first_terms (tokenize U q))
   \<and> set (first_terms (tokenize U q)) = set (tokenize U q)
   \<and> distinct (first_terms (tokenize U q))
   \<and> spec_score_in exact (buildIndex U its) (tokenize U q) i
     = (\<Sum>t\<in>set (tokenize U q).
          if get0 (df (buildIndex U its)) t = 0 then 0
          else real (count_list (tokenize U q) t)
                 * (1 + ln (1 + real (get0 (tf (buildIndex U its) ! i) t)))
                 * ln ((real (N (buildIndex U its)) + 1)
                       / (real (get0 (df (buildIndex U its)) t) + 1 / 2)))
   \<and> score_in exact U q (buildIndex U its) k = score U q (buildIndex U its) k
   \<and> chunk_scores_in exact (buildIndex U its) (count_terms (tokenize U q)) [0..<length its]
     = chunk_scores (buildIndex U its) (count_terms (tokenize U q)) [0..<length its]
   \<and> first_terms [] = []
   \<and> first_terms (qs @ [t])
     = (if t \<in> set qs then first_terms qs else first_terms qs @ [t])
   \<and> (get0 (tf (buildIndex U its) ! i) t = 0
        \<and> rnd A 1 = 1 \<and> flog A 1 = 0
        \<and> rnd A (real (count_list (tokenize U q) t)) = real (count_list (tokenize U q) t) \<longrightarrow>
        spec_weight_in A (buildIndex U its) (tokenize U q) i t
          = real (count_list (tokenize U q) t))
   \<and> (t \<in> set (tokenize U q) \<and> get0 (df (buildIndex U its)) t \<noteq> 0
        \<and> get0 (tf (buildIndex U its) ! i) t = 0 \<longrightarrow>
        spec_weight_in exact (buildIndex U its) (tokenize U q) i t
            * spec_idf_in exact (buildIndex U its) t
          = real (count_list (tokenize U q) t)
            * ln ((real (N (buildIndex U its)) + 1)
                  / (real (get0 (df (buildIndex U its)) t) + 1 / 2))
        \<and> 0 < real (count_list (tokenize U q) t)
                * ln ((real (N (buildIndex U its)) + 1)
                      / (real (get0 (df (buildIndex U its)) t) + 1 / 2)))"
proof (intro conjI impI)
  show "chunk_scores_in A (buildIndex U its) (count_terms (tokenize U q)) [0..<length its]
     = Inr (map (\<lambda>i. (i, spec_score_in A (buildIndex U its) (tokenize U q) i)) [0..<length its])"
    by (rule chunk_scores_in_buildIndex)
  show "score_in A U q (buildIndex U its) k
     = Inr (map (\<lambda>(i, s). with_score (its ! i) s)
             (slice0 (sort_key (\<lambda>(i, s). - s)
                       (map (\<lambda>i. (i, spec_score_in A (buildIndex U its) (tokenize U q) i))
                            [0..<length its])) k))"
    by (rule score_in_spec)
  show "count_terms (tokenize U q)
     = map (\<lambda>t. (t, count_list (tokenize U q) t)) (first_terms (tokenize U q))"
    by (rule count_terms_entries)
  show "set (first_terms (tokenize U q)) = set (tokenize U q)"
    and "distinct (first_terms (tokenize U q))"
    by (rule first_terms_set)+
  show "spec_score_in exact (buildIndex U its) (tokenize U q) i
     = (\<Sum>t\<in>set (tokenize U q).
          if get0 (df (buildIndex U its)) t = 0 then 0
          else real (count_list (tokenize U q) t)
                 * (1 + ln (1 + real (get0 (tf (buildIndex U its) ! i) t)))
                 * ln ((real (N (buildIndex U its)) + 1)
                       / (real (get0 (df (buildIndex U its)) t) + 1 / 2)))"
    by (simp add: spec_score_in_exact spec_score_def spec_weight_def spec_idf_def cong: if_cong)
  show "score_in exact U q (buildIndex U its) k = score U q (buildIndex U its) k"
    by (rule score_in_exact)
  show "chunk_scores_in exact (buildIndex U its) (count_terms (tokenize U q)) [0..<length its]
     = chunk_scores (buildIndex U its) (count_terms (tokenize U q)) [0..<length its]"
    by (rule chunk_scores_in_exact)
  show "first_terms [] = []"
    by (simp add: first_terms_def)
  show "first_terms (qs @ [t])
     = (if t \<in> set qs then first_terms qs else first_terms qs @ [t])"
    by (rule first_terms_snoc)
next
  assume "get0 (tf (buildIndex U its) ! i) t = 0
        \<and> rnd A 1 = 1 \<and> flog A 1 = 0
        \<and> rnd A (real (count_list (tokenize U q) t)) = real (count_list (tokenize U q) t)"
  then show "spec_weight_in A (buildIndex U its) (tokenize U q) i t
          = real (count_list (tokenize U q) t)"
    by (simp add: spec_weight_in_def)
next
  assume a: "t \<in> set (tokenize U q) \<and> get0 (df (buildIndex U its)) t \<noteq> 0
        \<and> get0 (tf (buildIndex U its) ! i) t = 0"
  then show "spec_weight_in exact (buildIndex U its) (tokenize U q) i t
            * spec_idf_in exact (buildIndex U its) t
          = real (count_list (tokenize U q) t)
            * ln ((real (N (buildIndex U its)) + 1)
                  / (real (get0 (df (buildIndex U its)) t) + 1 / 2))"
    by (simp add: spec_weight_in_def spec_idf_in_def exact_def)
  from a have "0 < count_list (tokenize U q) t"
    by (simp add: count_list_pos)
  then show "0 < real (count_list (tokenize U q) t)
                * ln ((real (N (buildIndex U its)) + 1)
                      / (real (get0 (df (buildIndex U its)) t) + 1 / 2))"
    using idf_pos [of U its t] by (simp add: spec_idf_def)
qed

theorem score_formula_witness:
  "js ''cat'' \<in> set (tokenize ascii_tables (js ''cat''))
   \<and> get0 (df (buildIndex ascii_tables (cat_dog blank blank))) (js ''cat'') \<noteq> 0
   \<and> get0 (tf (buildIndex ascii_tables (cat_dog blank blank)) ! 1) (js ''cat'') = 0
   \<and> rnd exact 1 = 1 \<and> flog exact 1 = 0
   \<and> rnd exact (real (count_list (tokenize ascii_tables (js ''cat'')) (js ''cat'')))
       = real (count_list (tokenize ascii_tables (js ''cat'')) (js ''cat''))
   \<and> spec_weight_in exact (buildIndex ascii_tables (cat_dog blank blank))
         (tokenize ascii_tables (js ''cat'')) 1 (js ''cat'')
       = real (count_list (tokenize ascii_tables (js ''cat'')) (js ''cat''))
   \<and> 0 < real (count_list (tokenize ascii_tables (js ''cat'')) (js ''cat''))
           * ln ((real (N (buildIndex ascii_tables (cat_dog blank blank))) + 1)
                 / (real (get0 (df (buildIndex ascii_tables (cat_dog blank blank))) (js ''cat''))
                    + 1 / 2))
   \<and> first_terms [js ''dog'', js ''cat'', js ''dog''] = [js ''dog'', js ''cat'']
   \<and> count_terms [js ''dog'', js ''cat'', js ''dog''] = [(js ''dog'', 2), (js ''cat'', 1)]"
proof -
  note f = cat_dog_facts [OF ascii_tables_agree, of blank blank]
  note th = score_formula [of exact ascii_tables "cat_dog blank blank" "js ''cat''" 8 1
      "[js ''dog'']" "js ''cat''"]
  have h: "js ''cat'' \<in> set (tokenize ascii_tables (js ''cat''))
     \<and> get0 (df (buildIndex ascii_tables (cat_dog blank blank))) (js ''cat'') \<noteq> 0
     \<and> get0 (tf (buildIndex ascii_tables (cat_dog blank blank)) ! 1) (js ''cat'') = 0"
    by (simp add: cat_dog_tokens f [unfolded One_nat_def])
  have e: "rnd exact 1 = 1 \<and> flog exact 1 = 0
     \<and> rnd exact (real (count_list (tokenize ascii_tables (js ''cat'')) (js ''cat'')))
       = real (count_list (tokenize ascii_tables (js ''cat'')) (js ''cat''))"
    by (simp add: exact_def)
  from th h e
  have w: "spec_weight_in exact (buildIndex ascii_tables (cat_dog blank blank))
         (tokenize ascii_tables (js ''cat'')) 1 (js ''cat'')
       = real (count_list (tokenize ascii_tables (js ''cat'')) (js ''cat''))"
    by blast
  from th h
  have p: "0 < real (count_list (tokenize ascii_tables (js ''cat'')) (js ''cat''))
           * ln ((real (N (buildIndex ascii_tables (cat_dog blank blank))) + 1)
                 / (real (get0 (df (buildIndex ascii_tables (cat_dog blank blank))) (js ''cat''))
                    + 1 / 2))"
    by blast
  have o: "first_terms [js ''dog'', js ''cat'', js ''dog''] = [js ''dog'', js ''cat'']"
    "count_terms [js ''dog'', js ''cat'', js ''dog''] = [(js ''dog'', 2), (js ''cat'', 1)]"
    by code_simp+
  from h e w p o show ?thesis by (intro conjI) blast+
qed

text \<open>
  Claim C2. In the index that \<open>buildIndex\<close> builds, the document frequency of every term
  is the number of chunks whose term-frequency table has a positive count for it, and
  that count is the number of occurrences of the term among the chunk's tokens: a chunk
  adds one to the document frequency however often the term occurs in it. For the corpus
  of the two texts \<open>cat dog\<close> and \<open>dog dog\<close> the document frequency of \<open>dog\<close> is 2, that
  of \<open>cat\<close> is 1, and the term frequency of \<open>dog\<close> in chunk 1 is 2.
\<close>

theorem buildIndex_document_frequency:
  "get0 (df (buildIndex U its)) t
     = card {i. i < length its \<and> 0 < get0 (tf (buildIndex U its) ! i) t}
   \<and> (\<forall>i<length its.
         get0 (tf (buildIndex U its) ! i) t = count_list (tokenize U (chunk_text (its ! i))) t)
   \<and> (agrees_on_ascii U \<longrightarrow>
         get0 (df (buildIndex U (cat_dog c0 c1))) (js ''dog'') = 2
       \<and> get0 (df (buildIndex U (cat_dog c0 c1))) (js ''cat'') = 1
       \<and> get0 (tf (buildIndex U (cat_dog c0 c1)) ! 1) (js ''dog'') = 2)"
proof (intro conjI impI allI)
  show "get0 (df (buildIndex U its)) t
     = card {i. i < length its \<and> 0 < get0 (tf (buildIndex U its) ! i) t}"
    by (rule df_buildIndex)
next
  fix i assume "i < length its"
  then show "get0 (tf (buildIndex U its) ! i) t = count_list (tokenize U (chunk_text (its ! i))) t"
    by (simp add: buildIndex_sel get0_count_terms)
next
  assume a: "agrees_on_ascii U"
  show "get0 (df (buildIndex U (cat_dog c0 c1))) (js ''dog'') = 2"
    by (simp only: cat_dog_index [OF a] cat_dog_get0)
  show "get0 (df (buildIndex U (cat_dog c0 c1))) (js ''cat'') = 1"
    by (simp only: cat_dog_index [OF a] cat_dog_get0)
  show "get0 (tf (buildIndex U (cat_dog c0 c1)) ! 1) (js ''dog'') = 2"
    by (simp add: cat_dog_index [OF a] cat_dog_get0)
qed

theorem buildIndex_document_frequency_witness:
  "agrees_on_ascii ascii_tables
   \<and> (0::nat) < length (cat_dog blank blank)
   \<and> get0 (tf (buildIndex ascii_tables (cat_dog blank blank)) ! 0) (js ''dog'')
       = count_list (tokenize ascii_tables (chunk_text (cat_dog blank blank ! 0))) (js ''dog'')
   \<and> get0 (df (buildIndex ascii_tables (cat_dog blank blank))) (js ''dog'') = 2
   \<and> get0 (df (buildIndex ascii_tables (cat_dog blank blank))) (js ''cat'') = 1
   \<and> get0 (tf (buildIndex ascii_tables (cat_dog blank blank)) ! 1) (js ''dog'') = 2"
proof -
  have l: "(0::nat) < length (cat_dog blank blank)"
    by (simp add: cat_dog_def)
  from buildIndex_document_frequency [of ascii_tables "cat_dog blank blank" "js ''dog''" blank blank]
    ascii_tables_agree l
  show ?thesis by blast
qed

text \<open>
  Claim C3. \<open>score\<close> ranks the chunks by descending score, and chunks with equal scores
  keep their corpus order, whatever the rounding of the engine is: the sorted array holds
  the entries of the array \<open>scores\<close>, one for every chunk position, and every entry ranks
  before every later one, that is, its score is higher, or equal with a lower chunk
  position. The result is the first \<open>topK\<close> entries. So a query whose terms all have
  document frequency 0 returns the first \<open>topK\<close> chunks of the corpus, in corpus order,
  each with score 0.
\<close>

theorem score_stable_descending:
  "(\<exists>ss r. chunk_scores_in A (buildIndex U its) (count_terms (tokenize U q)) [0..<length its] = Inr ss
        \<and> map fst ss = [0..<length its]
        \<and> ranking_in A U q (buildIndex U its) = Inr r
        \<and> length r = length ss \<and> set r = set ss
        \<and> sorted_wrt ranks_before r
        \<and> (\<forall>a b. a < b \<and> b < length r \<longrightarrow>
              snd (r ! b) \<le> snd (r ! a)
              \<and> (snd (r ! a) = snd (r ! b) \<longrightarrow> fst (r ! a) < fst (r ! b)))
        \<and> score_in A U q (buildIndex U its) k
            = Inr (map (\<lambda>(i, s). with_score (its ! i) s) (slice0 r k)))
   \<and> ((\<forall>t\<in>set (tokenize U q). get0 (df (buildIndex U its)) t = 0) \<and> 1 \<le> k \<longrightarrow>
        score_in A U q (buildIndex U its) k
          = Inr (map (\<lambda>c. with_score c 0) (take (nat k) its)))"
proof (intro conjI impI)
  let ?ss = "map (\<lambda>i. (i, spec_score_in A (buildIndex U its) (tokenize U q) i)) [0..<length its]"
  let ?r = "sort_key (\<lambda>(i, s). - s) ?ss"
  have c: "chunk_scores_in A (buildIndex U its) (count_terms (tokenize U q)) [0..<length its] = Inr ?ss"
    by (rule chunk_scores_in_buildIndex)
  then have r: "ranking_in A U q (buildIndex U its) = Inr ?r"
    by (simp add: ranking_in_def buildIndex_sel)
  have m: "map fst ?ss = [0..<length its]"
    by (simp add: comp_def)
  then have "sorted_wrt (<) (map fst ?ss)"
    by (simp only: sorted_wrt_upt)
  then have s: "sorted_wrt ranks_before ?r"
    by (rule sort_ranks_before)
  then have n: "\<forall>a b. a < b \<and> b < length ?r \<longrightarrow>
              snd (?r ! b) \<le> snd (?r ! a)
              \<and> (snd (?r ! a) = snd (?r ! b) \<longrightarrow> fst (?r ! a) < fst (?r ! b))"
    by (intro allI impI ranks_before_nth) simp_all
  have "score_in A U q (buildIndex U its) k
            = Inr (map (\<lambda>(i, s). with_score (its ! i) s) (slice0 ?r k))"
    by (rule score_in_spec)
  with c r m s n show "\<exists>ss r. chunk_scores_in A (buildIndex U its) (count_terms (tokenize U q)) [0..<length its] = Inr ss
        \<and> map fst ss = [0..<length its]
        \<and> ranking_in A U q (buildIndex U its) = Inr r
        \<and> length r = length ss \<and> set r = set ss
        \<and> sorted_wrt ranks_before r
        \<and> (\<forall>a b. a < b \<and> b < length r \<longrightarrow>
              snd (r ! b) \<le> snd (r ! a)
              \<and> (snd (r ! a) = snd (r ! b) \<longrightarrow> fst (r ! a) < fst (r ! b)))
        \<and> score_in A U q (buildIndex U its) k
            = Inr (map (\<lambda>(i, s). with_score (its ! i) s) (slice0 r k))"
    by (intro exI [of _ ?ss] exI [of _ ?r] conjI) simp_all
next
  assume "(\<forall>t\<in>set (tokenize U q). get0 (df (buildIndex U its)) t = 0) \<and> 1 \<le> k"
  then show "score_in A U q (buildIndex U its) k = Inr (map (\<lambda>c. with_score c 0) (take (nat k) its))"
    by (intro score_in_unknown) auto
qed

theorem score_stable_descending_witness:
  "tokenize ascii_tables (js ''bird'') = [js ''bird'']
   \<and> get0 (df (buildIndex ascii_tables (cat_dog blank blank))) (js ''bird'') = 0
   \<and> (1::int) \<le> 8
   \<and> score_in exact ascii_tables (js ''bird'') (buildIndex ascii_tables (cat_dog blank blank)) 8
        = Inr (map (\<lambda>c. with_score c 0) (take (nat 8) (cat_dog blank blank)))"
proof -
  note b = bird_tokens bird_unknown [OF ascii_tables_agree, of blank blank]
  have h: "(\<forall>t\<in>set (tokenize ascii_tables (js ''bird'')).
       get0 (df (buildIndex ascii_tables (cat_dog blank blank))) t = 0) \<and> (1::int) \<le> 8"
    by (simp add: b)
  with score_stable_descending [of exact ascii_tables "cat_dog blank blank" "js ''bird''" 8]
  have "score_in exact ascii_tables (js ''bird'') (buildIndex ascii_tables (cat_dog blank blank)) 8
        = Inr (map (\<lambda>c. with_score c 0) (take (nat 8) (cat_dog blank blank)))"
    by blast
  with b show ?thesis by simp
qed

text \<open>
  Claim C4. For a query with a single distinct term and an index built by \<open>buildIndex\<close>, a
  chunk whose term frequency for that term is at least that of another chunk has a score
  at least as high. In particular, for the corpus of the texts \<open>cat dog\<close> and \<open>dog dog\<close> and
  the query \<open>dog\<close>, chunk 1 scores at least as high as chunk 0.
\<close>

theorem higher_tf_scores_higher:
  "(set (tokenize U q) = {t} \<and> i < length its \<and> j < length its
      \<and> get0 (tf (buildIndex U its) ! i) t \<le> get0 (tf (buildIndex U its) ! j) t \<longrightarrow>
      (\<exists>ss. chunk_scores (buildIndex U its) (count_terms (tokenize U q)) [0..<length its] = Inr ss
            \<and> ss ! i = (i, spec_score (buildIndex U its) (tokenize U q) i)
            \<and> ss ! j = (j, spec_score (buildIndex U its) (tokenize U q) j)
            \<and> snd (ss ! i) \<le> snd (ss ! j)))
   \<and> (agrees_on_ascii U \<longrightarrow>
      (\<exists>ss. chunk_scores (buildIndex U (cat_dog c0 c1)) (count_terms (tokenize U (js ''dog''))) [0..<2]
              = Inr ss
            \<and> snd (ss ! 0) \<le> snd (ss ! 1)))"
proof (intro conjI impI)
  assume a: "set (tokenize U q) = {t} \<and> i < length its \<and> j < length its
      \<and> get0 (tf (buildIndex U its) ! i) t \<le> get0 (tf (buildIndex U its) ! j) t"
  let ?ss = "map (\<lambda>i. (i, spec_score (buildIndex U its) (tokenize U q) i)) [0..<length its]"
  have "spec_score (buildIndex U its) (tokenize U q) i \<le> spec_score (buildIndex U its) (tokenize U q) j"
    using a by (intro spec_score_mono) auto
  with a show "\<exists>ss. chunk_scores (buildIndex U its) (count_terms (tokenize U q)) [0..<length its] = Inr ss
            \<and> ss ! i = (i, spec_score (buildIndex U its) (tokenize U q) i)
            \<and> ss ! j = (j, spec_score (buildIndex U its) (tokenize U q) j)
            \<and> snd (ss ! i) \<le> snd (ss ! j)"
    by (intro exI [of _ ?ss]) (simp add: chunk_scores_buildIndex)
next
  assume u: "agrees_on_ascii U"
  note f = cat_dog_facts [OF u, of c0 c1]
  let ?its = "cat_dog c0 c1"
  let ?q = "tokenize U (js ''dog'')"
  let ?ss = "map (\<lambda>i. (i, spec_score (buildIndex U ?its) ?q i)) [0..<length ?its]"
  have q: "set ?q = {js ''dog''}"
    using u by (simp add: tokenize_ascii cat_dog_is_ascii cat_dog_tokens)
  have "get0 (tf (buildIndex U ?its) ! 0) (js ''dog'') \<le> get0 (tf (buildIndex U ?its) ! 1) (js ''dog'')"
    by (simp only: f)
  with q have "spec_score (buildIndex U ?its) ?q 0 \<le> spec_score (buildIndex U ?its) ?q 1"
    by (rule spec_score_mono)
  moreover have "chunk_scores (buildIndex U ?its) (count_terms ?q) [0..<2] = Inr ?ss"
    using chunk_scores_buildIndex [of U ?its "js ''dog''"] by (simp only: f)
  moreover have "?ss ! 0 = (0, spec_score (buildIndex U ?its) ?q 0)"
    "?ss ! 1 = (1, spec_score (buildIndex U ?its) ?q 1)"
    by (simp_all add: f)
  ultimately show "\<exists>ss. chunk_scores (buildIndex U ?its) (count_terms ?q) [0..<2] = Inr ss
            \<and> snd (ss ! 0) \<le> snd (ss ! 1)"
    by (intro exI [of _ ?ss]) (simp only: snd_conv simp_thms)
qed

theorem higher_tf_scores_higher_witness:
  "set (tokenize ascii_tables (js ''dog'')) = {js ''dog''}
   \<and> (0::nat) < length (cat_dog blank blank) \<and> (1::nat) < length (cat_dog blank blank)
   \<and> get0 (tf (buildIndex ascii_tables (cat_dog blank blank)) ! 0) (js ''dog'')
       \<le> get0 (tf (buildIndex ascii_tables (cat_dog blank blank)) ! 1) (js ''dog'')
   \<and> agrees_on_ascii ascii_tables
   \<and> spec_score (buildIndex ascii_tables (cat_dog blank blank)) (tokenize ascii_tables (js ''dog'')) 0
       \<le> spec_score (buildIndex ascii_tables (cat_dog blank blank)) (tokenize ascii_tables (js ''dog'')) 1"
proof -
  note f = cat_dog_facts [OF ascii_tables_agree, of blank blank]
  have le: "get0 (tf (buildIndex ascii_tables (cat_dog blank blank)) ! 0) (js ''dog'')
       \<le> get0 (tf (buildIndex ascii_tables (cat_dog blank blank)) ! 1) (js ''dog'')"
    by (simp only: f)
  have h: "set (tokenize ascii_tables (js ''dog'')) = {js ''dog''}
     \<and> (0::nat) < length (cat_dog blank blank) \<and> (1::nat) < length (cat_dog blank blank)"
    by (simp add: cat_dog_tokens cat_dog_def)
  have "\<exists>ss. chunk_scores (buildIndex ascii_tables (cat_dog blank blank))
               (count_terms (tokenize ascii_tables (js ''dog''))) [0..<length (cat_dog blank blank)] = Inr ss
            \<and> ss ! 0 = (0, spec_score (buildIndex ascii_tables (cat_dog blank blank))
                              (tokenize ascii_tables (js ''dog'')) 0)
            \<and> ss ! 1 = (1, spec_score (buildIndex ascii_tables (cat_dog blank blank))
                              (tokenize ascii_tables (js ''dog'')) 1)
            \<and> snd (ss ! 0) \<le> snd (ss ! 1)"
    using h le
    by (intro higher_tf_scores_higher
         [of ascii_tables "js ''dog''" "js ''dog''" 0 "cat_dog blank blank" 1 blank blank,
          THEN conjunct1, THEN mp]) (simp only: simp_thms)
  then have "spec_score (buildIndex ascii_tables (cat_dog blank blank)) (tokenize ascii_tables (js ''dog'')) 0
       \<le> spec_score (buildIndex ascii_tables (cat_dog blank blank)) (tokenize ascii_tables (js ''dog'')) 1"
    by (elim exE conjE) simp
  with h le ascii_tables_agree show ?thesis by blast
qed

text \<open>
  Claim C5. For every query, every corpus of \<open>N\<close> chunks indexed by \<open>buildIndex\<close> and every
  \<open>topK\<close> of at least 1, \<open>score\<close> does not fail and returns exactly \<open>min(topK, N)\<close> scored
  chunks, whatever the scores are; with \<open>topK = 8\<close> and three chunks it returns three.
\<close>

theorem score_length:
  "(1 \<le> k \<longrightarrow>
      (\<exists>r. score U q (buildIndex U its) k = Inr r \<and> length r = min (nat k) (length its)))
   \<and> (\<exists>r. score U q (buildIndex U [a, b, c]) 8 = Inr r \<and> length r = 3)"
  by (simp add: score_spec length_slice0)

theorem score_length_witness:
  "(1::int) \<le> 8
   \<and> \<not> isl (score ascii_tables (js ''dog'') (buildIndex ascii_tables [blank, blank, blank]) 8)
   \<and> length (projr (score ascii_tables (js ''dog'') (buildIndex ascii_tables [blank, blank, blank]) 8))
       = min (nat 8) (length [blank, blank, blank])"
proof -
  have "(1::int) \<le> 8" by simp
  with score_length [where k = 8 and U = ascii_tables and q = "js ''dog''"
      and its = "[blank, blank, blank]" and a = blank and b = blank and c = blank]
  obtain r where "score ascii_tables (js ''dog'') (buildIndex ascii_tables [blank, blank, blank]) 8 = Inr r"
    and "length r = min (nat 8) (length [blank, blank, blank])"
    by blast
  then show ?thesis by simp
qed

text \<open>
  Claim C10. For every query and every index built by \<open>buildIndex\<close>, every scored chunk
  that \<open>score\<close> returns has a score of at least 0: every indexed term has a document
  frequency between 1 and \<open>N\<close>, the inverse document frequency of every term is positive,
  and so every term adds a non-negative amount.
\<close>

theorem score_nonneg:
  "(\<exists>r. score U q (buildIndex U its) k = Inr r \<and> (\<forall>c\<in>set r. 0 \<le> score_value c))
   \<and> (\<forall>t\<in>fst ` set (df (buildIndex U its)).
         1 \<le> get0 (df (buildIndex U its)) t
       \<and> get0 (df (buildIndex U its)) t \<le> N (buildIndex U its)
       \<and> 0 < spec_idf (buildIndex U its) t)
   \<and> (\<forall>i t. 0 \<le> (if get0 (df (buildIndex U its)) t = 0 then 0
                   else spec_weight (buildIndex U its) (tokenize U q) i t
                          * spec_idf (buildIndex U its) t))"
proof (intro conjI ballI allI)
  let ?idx = "buildIndex U its"
  let ?r = "slice0 (sort_key (\<lambda>(i, s). - s)
              (map (\<lambda>i. (i, spec_score ?idx (tokenize U q) i)) [0..<length its])) k"
  have "0 \<le> score_value c" if "c \<in> set (map (\<lambda>(i, s). with_score (its ! i) s) ?r)" for c
  proof -
    from that obtain i s where c: "c = with_score (its ! i) s" and "(i, s) \<in> set ?r"
      by auto
    with set_slice0 have "(i, s) \<in> set (map (\<lambda>i. (i, spec_score ?idx (tokenize U q) i)) [0..<length its])"
      by fastforce
    then have "s = spec_score ?idx (tokenize U q) i" by auto
    with c show ?thesis
      by (simp add: score_value_with_score spec_score_nonneg)
  qed
  then show "\<exists>r. score U q ?idx k = Inr r \<and> (\<forall>c\<in>set r. 0 \<le> score_value c)"
    by (simp only: score_spec) blast
next
  fix t assume "t \<in> fst ` set (df (buildIndex U its))"
  then show "1 \<le> get0 (df (buildIndex U its)) t" by (rule df_ge_1)
next
  fix t
  show "get0 (df (buildIndex U its)) t \<le> N (buildIndex U its)" by (rule df_le_N)
  show "0 < spec_idf (buildIndex U its) t" by (rule idf_pos)
next
  fix i t
  have "0 \<le> spec_weight (buildIndex U its) (tokenize U q) i t"
    by (simp add: spec_weight_def add_nonneg_nonneg)
  then show "0 \<le> (if get0 (df (buildIndex U its)) t = 0 then 0
                   else spec_weight (buildIndex U its) (tokenize U q) i t
                          * spec_idf (buildIndex U its) t)"
    using idf_pos [of U its t] by simp
qed

theorem score_nonneg_witness:
  "js ''dog'' \<in> fst ` set (df (buildIndex ascii_tables (cat_dog blank blank)))
   \<and> 1 \<le> get0 (df (buildIndex ascii_tables (cat_dog blank blank))) (js ''dog'')
   \<and> get0 (df (buildIndex ascii_tables (cat_dog blank blank))) (js ''dog'')
       \<le> N (buildIndex ascii_tables (cat_dog blank blank))
   \<and> 0 < spec_idf (buildIndex ascii_tables (cat_dog blank blank)) (js ''dog'')
   \<and> length (projr (score ascii_tables (js ''dog'') (buildIndex ascii_tables (cat_dog blank blank)) 8)) = 2
   \<and> 0 \<le> score_value
           (projr (score ascii_tables (js ''dog'') (buildIndex ascii_tables (cat_dog blank blank)) 8) ! 0)"
proof -
  let ?r = "projr (score ascii_tables (js ''dog'') (buildIndex ascii_tables (cat_dog blank blank)) 8)"
  have h: "js ''dog'' \<in> fst ` set (df (buildIndex ascii_tables (cat_dog blank blank)))"
    by (simp add: cat_dog_index [OF ascii_tables_agree])
  have l: "length ?r = 2"
    by (simp add: score_spec length_slice0 cat_dog_def)
  then have m: "?r ! 0 \<in> set ?r" by simp
  note th = score_nonneg [of ascii_tables "js ''dog''" "cat_dog blank blank" 8]
  from th have "\<forall>c\<in>set ?r. 0 \<le> score_value c"
    by (elim conjE exE) simp
  with m have "0 \<le> score_value (?r ! 0)" by blast
  with th h l show ?thesis by blast
qed

section \<open>Claims about the tokenizer, the loader and the orchestrator\<close>

text \<open>
  Claim C6. For a record with a non-empty transcription text, both loops build the chunks
  from the paragraphs of the text: the text is split at every run of two or more line
  feeds and the empty pieces are dropped, so that nothing but line feeds is lost and no
  paragraph is empty or contains a blank line; a record without text gives no chunk. The
  chunk of the paragraph at position \<open>idx\<close> has the id \<open>url#p\<close> followed by \<open>idx\<close> in
  decimal, the record's title, date and url, and as its text the first 2000 code units
  of the paragraph: a non-empty text of at most 2000 code units, of exactly 2000 when the
  paragraph is longer. The chunks keep the order of the paragraphs and of the records,
  transcriptions before videos. Three paragraphs separated by two line feeds give exactly
  three chunks, with the ids \<open>url#p0\<close>, \<open>url#p1\<close>, \<open>url#p2\<close> in this order.

  The split is the one of \<open>/\n\n+/\<close>: a text with no blank line is one paragraph (none when
  it is empty), and a text that starts with a piece \<open>p\<close> with no blank line, followed by a
  whole run of \<open>n\<close> line feeds, \<open>n\<close> at least two, and by the rest of the text, has the
  paragraphs of the rest after \<open>p\<close>; the run is consumed whole, so \<open>a\<close>, three line feeds and
  \<open>b\<close> give \<open>a\<close> and \<open>b\<close>. The position in the id is written in decimal: with digits
  only, with the value \<open>idx\<close> and with no leading zero. A missing or empty field gives the
  default (\<open>Untitled\<close> for the title, the empty string otherwise). Each of the two arrays of
  the file is read when it is there, whether or not the other one is: a file with
  transcriptions only gives their chunks, a file with videos only gives theirs, and a file
  with neither gives none.
\<close>

theorem loadData_chunking:
  "(text_field t = Some text \<and> text \<noteq> [] \<longrightarrow>
      transcription_chunks t =
        push_parts (or_else (meta_field t title) (js ''Untitled''))
          (or_else (meta_field t record_date) (or_else (meta_field t estimated_date) []))
          (or_else (meta_field t url) []) (paragraphs text)
    \<and> video_chunks t =
        push_parts (or_else (meta_field t title) (js ''Untitled''))
          (or_else (meta_field t estimated_date) [])
          (or_else (meta_field t url) []) (paragraphs text))
   \<and> (text_field t = None \<or> text_field t = Some [] \<longrightarrow>
        transcription_chunks t = [] \<and> video_chunks t = [])
   \<and> length (push_parts ttl dt u (paragraphs text)) = length (paragraphs text)
   \<and> filter (\<lambda>c. c \<noteq> 0x0A) (concat (paragraphs text)) = filter (\<lambda>c. c \<noteq> 0x0A) text
   \<and> (\<forall>idx<length (paragraphs text).
         chunk_id (push_parts ttl dt u (paragraphs text) ! idx) = u @ js ''#p'' @ js_decimal idx
       \<and> chunk_text (push_parts ttl dt u (paragraphs text) ! idx) = take 2000 (paragraphs text ! idx)
       \<and> chunk_title (push_parts ttl dt u (paragraphs text) ! idx) = ttl
       \<and> chunk_date (push_parts ttl dt u (paragraphs text) ! idx) = dt
       \<and> chunk_url (push_parts ttl dt u (paragraphs text) ! idx) = u
       \<and> paragraphs text ! idx \<noteq> []
       \<and> blank_line_free (paragraphs text ! idx)
       \<and> chunk_text (push_parts ttl dt u (paragraphs text) ! idx) \<noteq> []
       \<and> length (chunk_text (push_parts ttl dt u (paragraphs text) ! idx)) \<le> 2000
       \<and> (2000 < length (paragraphs text ! idx) \<longrightarrow>
            length (chunk_text (push_parts ttl dt u (paragraphs text) ! idx)) = 2000))
   \<and> (is_paragraph p0 \<and> is_paragraph p1 \<and> is_paragraph p2 \<longrightarrow>
        push_parts ttl dt u (paragraphs (p0 @ [0x0A, 0x0A] @ p1 @ [0x0A, 0x0A] @ p2)) =
          [\<lparr>chunk_id = u @ js ''#p0'', chunk_text = take 2000 p0,
            chunk_title = ttl, chunk_date = dt, chunk_url = u\<rparr>,
           \<lparr>chunk_id = u @ js ''#p1'', chunk_text = take 2000 p1,
            chunk_title = ttl, chunk_date = dt, chunk_url = u\<rparr>,
           \<lparr>chunk_id = u @ js ''#p2'', chunk_text = take 2000 p2,
            chunk_title = ttl, chunk_date = dt, chunk_url = u\<rparr>])
   \<and> loadData_items \<lparr>transcriptions = Some ts, videos = Some vs\<rparr>
       = concat (map transcription_chunks ts) @ concat (map video_chunks vs)
   \<and> loadData_items \<lparr>transcriptions = Some ts, videos = None\<rparr>
       = concat (map transcription_chunks ts)
   \<and> loadData_items \<lparr>transcriptions = None, videos = Some vs\<rparr>
       = concat (map video_chunks vs)
   \<and> loadData_items \<lparr>transcriptions = None, videos = None\<rparr> = []
   \<and> (blank_line_free p \<longrightarrow> paragraphs p = (if p = [] then [] else [p]))
   \<and> (blank_line_free p \<and> (p = [] \<or> last p \<noteq> 0x0A) \<and> (rest = [] \<or> hd rest \<noteq> 0x0A)
        \<and> 2 \<le> n \<longrightarrow>
        paragraphs (p @ replicate n 0x0A @ rest) = (if p = [] then [] else [p]) @ paragraphs rest)
   \<and> decimal_value (js_decimal m) = m
   \<and> js_decimal m \<noteq> []
   \<and> (\<forall>d\<in>set (js_decimal m). 48 \<le> unat d \<and> unat d \<le> 57)
   \<and> (m \<noteq> 0 \<longrightarrow> unat (hd (js_decimal m)) \<noteq> 48)
   \<and> or_else None dflt = dflt
   \<and> or_else (Some []) dflt = dflt
   \<and> (s \<noteq> [] \<longrightarrow> or_else (Some s) dflt = s)
   \<and> text_field None = None
   \<and> text_field (Some r) = transcription r
   \<and> meta_field None f = None
   \<and> meta_field (Some r) f = (case metadata r of None \<Rightarrow> None | Some md \<Rightarrow> f md)"
proof (intro conjI impI allI)
  assume a: "text_field t = Some text \<and> text \<noteq> []"
  then show "transcription_chunks t =
        push_parts (or_else (meta_field t title) (js ''Untitled''))
          (or_else (meta_field t record_date) (or_else (meta_field t estimated_date) []))
          (or_else (meta_field t url) []) (paragraphs text)"
    by (intro chunks_of_record) simp_all
  from a show "video_chunks t =
        push_parts (or_else (meta_field t title) (js ''Untitled''))
          (or_else (meta_field t estimated_date) [])
          (or_else (meta_field t url) []) (paragraphs text)"
    by (intro chunks_of_record) simp_all
next
  assume a: "text_field t = None \<or> text_field t = Some []"
  then show "transcription_chunks t = []" by (rule chunks_of_empty)
  from a show "video_chunks t = []" by (rule chunks_of_empty)
next
  show "length (push_parts ttl dt u (paragraphs text)) = length (paragraphs text)"
    by (rule length_push_parts)
  show "filter (\<lambda>c. c \<noteq> 0x0A) (concat (paragraphs text)) = filter (\<lambda>c. c \<noteq> 0x0A) text"
    by (rule filter_concat_paragraphs)
  show "loadData_items \<lparr>transcriptions = Some ts, videos = Some vs\<rparr>
       = concat (map transcription_chunks ts) @ concat (map video_chunks vs)"
    by (simp add: loadData_items_def)
next
  fix idx assume i: "idx < length (paragraphs text)"
  let ?c = "push_parts ttl dt u (paragraphs text) ! idx"
  note n = nth_push_parts [OF i, of ttl dt u]
  from i have m: "paragraphs text ! idx \<in> set (paragraphs text)" by simp
  show "chunk_id ?c = u @ js ''#p'' @ js_decimal idx" by (simp add: n)
  show "chunk_text ?c = take 2000 (paragraphs text ! idx)" by (simp add: n)
  show "chunk_title ?c = ttl" by (simp add: n)
  show "chunk_date ?c = dt" by (simp add: n)
  show "chunk_url ?c = u" by (simp add: n)
  from m show "paragraphs text ! idx \<noteq> []" by (rule paragraphs_nonempty)
  then show "chunk_text ?c \<noteq> []" by (simp add: n)
  from m show "blank_line_free (paragraphs text ! idx)" by (rule paragraphs_blank_line_free)
  show "length (chunk_text ?c) \<le> 2000" by (simp add: n)
  assume "2000 < length (paragraphs text ! idx)"
  then show "length (chunk_text ?c) = 2000" by (simp add: n)
next
  assume "is_paragraph p0 \<and> is_paragraph p1 \<and> is_paragraph p2"
  then have "paragraphs (p0 @ [0x0A, 0x0A] @ p1 @ [0x0A, 0x0A] @ p2) = [p0, p1, p2]"
    by (intro paragraphs_three) simp_all
  then show "push_parts ttl dt u (paragraphs (p0 @ [0x0A, 0x0A] @ p1 @ [0x0A, 0x0A] @ p2)) =
          [\<lparr>chunk_id = u @ js ''#p0'', chunk_text = take 2000 p0,
            chunk_title = ttl, chunk_date = dt, chunk_url = u\<rparr>,
           \<lparr>chunk_id = u @ js ''#p1'', chunk_text = take 2000 p1,
            chunk_title = ttl, chunk_date = dt, chunk_url = u\<rparr>,
           \<lparr>chunk_id = u @ js ''#p2'', chunk_text = take 2000 p2,
            chunk_title = ttl, chunk_date = dt, chunk_url = u\<rparr>]"
    by (simp only: push_parts_three)
next
  show "loadData_items \<lparr>transcriptions = Some ts, videos = None\<rparr>
       = concat (map transcription_chunks ts)"
    by (simp add: loadData_items_cases)
  show "loadData_items \<lparr>transcriptions = None, videos = Some vs\<rparr>
       = concat (map video_chunks vs)"
    by (simp add: loadData_items_cases)
  show "loadData_items \<lparr>transcriptions = None, videos = None\<rparr> = []"
    by (simp add: loadData_items_cases)
  show "decimal_value (js_decimal m) = m" by (rule decimal_value_js_decimal)
  show "js_decimal m \<noteq> []" by (rule js_decimal_nonempty)
  show "\<forall>d\<in>set (js_decimal m). 48 \<le> unat d \<and> unat d \<le> 57" by (rule digits_js_decimal)
  show "or_else None dflt = dflt" by (simp add: or_else_def)
  show "or_else (Some []) dflt = dflt" by (simp add: or_else_def)
  show "text_field None = None" by (simp add: text_field_def)
  show "text_field (Some r) = transcription r" by (simp add: text_field_def)
  show "meta_field None f = None" by (simp add: meta_field_def)
  show "meta_field (Some r) f = (case metadata r of None \<Rightarrow> None | Some md \<Rightarrow> f md)"
    by (simp add: meta_field_def)
next
  assume "blank_line_free p"
  then show "paragraphs p = (if p = [] then [] else [p])" by (rule paragraphs_single)
next
  assume "blank_line_free p \<and> (p = [] \<or> last p \<noteq> 0x0A) \<and> (rest = [] \<or> hd rest \<noteq> 0x0A)
        \<and> 2 \<le> n"
  then show "paragraphs (p @ replicate n 0x0A @ rest)
             = (if p = [] then [] else [p]) @ paragraphs rest"
    by (intro paragraphs_run) simp_all
next
  assume "m \<noteq> 0"
  with leading_digit_js_decimal [of m] show "unat (hd (js_decimal m)) \<noteq> 48" by simp
next
  assume "s \<noteq> []"
  then show "or_else (Some s) dflt = s" by (simp add: or_else_def)
qed

theorem loadData_chunking_witness:
  "is_paragraph (js ''ab'') \<and> is_paragraph (js ''c'') \<and> is_paragraph (js ''de'')
   \<and> text_field (Some \<lparr>metadata =
                         Some \<lparr>title = Some (js ''T''), record_date = None,
                               estimated_date = Some (js ''2024''), url = Some (js ''u'')\<rparr>,
                       transcription =
                         Some (js ''ab'' @ [0x0A, 0x0A] @ js ''c'' @ [0x0A, 0x0A] @ js ''de'')\<rparr>)
       = Some (js ''ab'' @ [0x0A, 0x0A] @ js ''c'' @ [0x0A, 0x0A] @ js ''de'')
   \<and> js ''ab'' @ [0x0A, 0x0A] @ js ''c'' @ [0x0A, 0x0A] @ js ''de'' \<noteq> []
   \<and> transcription_chunks
         (Some \<lparr>metadata =
                   Some \<lparr>title = Some (js ''T''), record_date = None,
                         estimated_date = Some (js ''2024''), url = Some (js ''u'')\<rparr>,
                 transcription =
                   Some (js ''ab'' @ [0x0A, 0x0A] @ js ''c'' @ [0x0A, 0x0A] @ js ''de'')\<rparr>)
       = [\<lparr>chunk_id = js ''u#p0'', chunk_text = js ''ab'',
            chunk_title = js ''T'', chunk_date = js ''2024'', chunk_url = js ''u''\<rparr>,
          \<lparr>chunk_id = js ''u#p1'', chunk_text = js ''c'',
            chunk_title = js ''T'', chunk_date = js ''2024'', chunk_url = js ''u''\<rparr>,
          \<lparr>chunk_id = js ''u#p2'', chunk_text = js ''de'',
            chunk_title = js ''T'', chunk_date = js ''2024'', chunk_url = js ''u''\<rparr>]
   \<and> text_field None = None
   \<and> transcription_chunks None = [] \<and> video_chunks None = []
   \<and> (0::nat) < length (paragraphs (replicate 2001 0x61))
   \<and> 2000 < length (paragraphs (replicate 2001 0x61) ! 0)
   \<and> length (chunk_text (push_parts [] [] [] (paragraphs (replicate 2001 0x61)) ! 0)) = 2000
   \<and> paragraphs (js ''a'' @ [0x0A, 0x0A, 0x0A] @ js ''b'') = [js ''a'', js ''b'']
   \<and> paragraphs (js ''a'' @ [0x0A] @ js ''b'') = [js ''a'' @ [0x0A] @ js ''b'']
   \<and> loadData_items example_data
       = [\<lparr>chunk_id = js ''u#p0'', chunk_text = js ''cat dog'',
            chunk_title = js ''T'', chunk_date = js ''2024'', chunk_url = js ''u''\<rparr>,
          \<lparr>chunk_id = js ''u#p1'', chunk_text = js ''dog dog'',
            chunk_title = js ''T'', chunk_date = js ''2024'', chunk_url = js ''u''\<rparr>]
   \<and> js_decimal 10 = js ''10''
   \<and> or_else (Some (js ''x'')) (js ''Untitled'') = js ''x''"
proof -
  let ?text = "js ''ab'' @ [0x0A, 0x0A] @ js ''c'' @ [0x0A, 0x0A] @ js ''de''"
  let ?t = "Some \<lparr>metadata =
                   Some \<lparr>title = Some (js ''T''), record_date = None,
                         estimated_date = Some (js ''2024''), url = Some (js ''u'')\<rparr>,
                 transcription = Some ?text\<rparr>"
  have p: "is_paragraph (js ''ab'') \<and> is_paragraph (js ''c'') \<and> is_paragraph (js ''de'')"
    by code_simp
  have f: "text_field ?t = Some ?text" "?text \<noteq> []" "text_field None = None"
    by (simp_all add: text_field_def)
  have m: "or_else (meta_field ?t title) (js ''Untitled'') = js ''T''"
    "or_else (meta_field ?t record_date) (or_else (meta_field ?t estimated_date) []) = js ''2024''"
    "or_else (meta_field ?t url) [] = js ''u''"
    by code_simp+
  have i: "js ''u'' @ js ''#p0'' = js ''u#p0''" "js ''u'' @ js ''#p1'' = js ''u#p1''"
    "js ''u'' @ js ''#p2'' = js ''u#p2''"
    "take 2000 (js ''ab'') = js ''ab''" "take 2000 (js ''c'') = js ''c''"
    "take 2000 (js ''de'') = js ''de''"
    by code_simp+
  have l: "(0::nat) < length (paragraphs (replicate 2001 0x61))"
    "2000 < length (paragraphs (replicate 2001 0x61) ! 0)"
    by (simp_all add: paragraphs_long)
  note th = loadData_chunking [of None "replicate 2001 0x61" "[]" "[]" "[]"
      "js ''ab''" "js ''c''" "js ''de''" "[]" "[]"]
  note th' = loadData_chunking [of ?t ?text "js ''T''" "js ''2024''" "js ''u''"
      "js ''ab''" "js ''c''" "js ''de''" "[]" "[]"]
  from th [THEN conjunct2, THEN conjunct2, THEN conjunct2, THEN conjunct2, THEN conjunct1] l
  have a: "length (chunk_text (push_parts [] [] [] (paragraphs (replicate 2001 0x61)) ! 0)) = 2000"
    by blast
  from th [THEN conjunct2, THEN conjunct1] f(3) have b: "transcription_chunks None = [] \<and> video_chunks None = []"
    by blast
  from th' [THEN conjunct1] f(1,2)
  have "transcription_chunks ?t =
        push_parts (or_else (meta_field ?t title) (js ''Untitled''))
          (or_else (meta_field ?t record_date) (or_else (meta_field ?t estimated_date) []))
          (or_else (meta_field ?t url) []) (paragraphs ?text)"
    by blast
  then have c: "transcription_chunks ?t = push_parts (js ''T'') (js ''2024'') (js ''u'') (paragraphs ?text)"
    by (simp only: m)
  from th' [THEN conjunct2, THEN conjunct2, THEN conjunct2, THEN conjunct2, THEN conjunct2, THEN conjunct1] p have "push_parts (js ''T'') (js ''2024'') (js ''u'') (paragraphs ?text) =
          [\<lparr>chunk_id = js ''u'' @ js ''#p0'', chunk_text = take 2000 (js ''ab''),
            chunk_title = js ''T'', chunk_date = js ''2024'', chunk_url = js ''u''\<rparr>,
           \<lparr>chunk_id = js ''u'' @ js ''#p1'', chunk_text = take 2000 (js ''c''),
            chunk_title = js ''T'', chunk_date = js ''2024'', chunk_url = js ''u''\<rparr>,
           \<lparr>chunk_id = js ''u'' @ js ''#p2'', chunk_text = take 2000 (js ''de''),
            chunk_title = js ''T'', chunk_date = js ''2024'', chunk_url = js ''u''\<rparr>]"
    by blast
  with c have d: "transcription_chunks ?t =
       [\<lparr>chunk_id = js ''u#p0'', chunk_text = js ''ab'',
            chunk_title = js ''T'', chunk_date = js ''2024'', chunk_url = js ''u''\<rparr>,
          \<lparr>chunk_id = js ''u#p1'', chunk_text = js ''c'',
            chunk_title = js ''T'', chunk_date = js ''2024'', chunk_url = js ''u''\<rparr>,
          \<lparr>chunk_id = js ''u#p2'', chunk_text = js ''de'',
            chunk_title = js ''T'', chunk_date = js ''2024'', chunk_url = js ''u''\<rparr>]"
    by (simp only: i)
  note th2 = loadData_chunking [of None "js ''b''" "[]" "[]" "[]"
      "js ''ab''" "js ''c''" "js ''de''"
      "[Some \<lparr>metadata =
                Some \<lparr>title = Some (js ''T''), record_date = None,
                      estimated_date = Some (js ''2024''), url = Some (js ''u'')\<rparr>,
              transcription = Some (js ''cat dog'' @ [0x0A, 0x0A] @ js ''dog dog'')\<rparr>]"
      "[]" "js ''a''" "js ''b''" 3 10 "js ''Untitled''" "js ''x''"]
  note th3 = loadData_chunking [of None "js ''b''" "[]" "[]" "[]"
      "js ''ab''" "js ''c''" "js ''de''" "[]" "[]" "js ''b''"]
  note th4 = loadData_chunking [of None "js ''b''" "[]" "[]" "[]"
      "js ''ab''" "js ''c''" "js ''de''" "[]" "[]" "js ''a'' @ [0x0A] @ js ''b''"]
  have e: "blank_line_free (js ''a'')" "js ''a'' = [] \<or> last (js ''a'') \<noteq> 0x0A"
    "js ''b'' = [] \<or> hd (js ''b'') \<noteq> 0x0A" "(2::nat) \<le> 3" "blank_line_free (js ''b'')"
    "js ''a'' \<noteq> []" "js ''b'' \<noteq> []" "replicate 3 (0x0A::cu) = [0x0A, 0x0A, 0x0A]"
    "blank_line_free (js ''a'' @ [0x0A] @ js ''b'')" "js ''a'' @ [0x0A] @ js ''b'' \<noteq> []"
    "js ''x'' \<noteq> []"
    by code_simp+
  from th2 [THEN conjunct2, THEN conjunct2, THEN conjunct2, THEN conjunct2, THEN conjunct2, THEN conjunct2, THEN conjunct2, THEN conjunct2, THEN conjunct2, THEN conjunct2, THEN conjunct2, THEN conjunct1] e(1-4) have "paragraphs (js ''a'' @ replicate 3 0x0A @ js ''b'')
        = (if js ''a'' = [] then [] else [js ''a'']) @ paragraphs (js ''b'')"
    by blast
  moreover from th3 [THEN conjunct2, THEN conjunct2, THEN conjunct2, THEN conjunct2, THEN conjunct2, THEN conjunct2, THEN conjunct2, THEN conjunct2, THEN conjunct2, THEN conjunct2, THEN conjunct1] e(5) have "paragraphs (js ''b'') = (if js ''b'' = [] then [] else [js ''b''])"
    by blast
  ultimately have g: "paragraphs (js ''a'' @ [0x0A, 0x0A, 0x0A] @ js ''b'') = [js ''a'', js ''b'']"
    by (simp only: e(6,7,8) if_False append.simps)
  from th4 [THEN conjunct2, THEN conjunct2, THEN conjunct2, THEN conjunct2, THEN conjunct2, THEN conjunct2, THEN conjunct2, THEN conjunct2, THEN conjunct2, THEN conjunct2, THEN conjunct1] e(9) have "paragraphs (js ''a'' @ [0x0A] @ js ''b'')
        = (if js ''a'' @ [0x0A] @ js ''b'' = [] then [] else [js ''a'' @ [0x0A] @ js ''b''])"
    by blast
  then have h: "paragraphs (js ''a'' @ [0x0A] @ js ''b'') = [js ''a'' @ [0x0A] @ js ''b'']"
    by (simp only: e(10) if_False)
  have "transcription_chunks
          (Some \<lparr>metadata =
                Some \<lparr>title = Some (js ''T''), record_date = None,
                      estimated_date = Some (js ''2024''), url = Some (js ''u'')\<rparr>,
              transcription = Some (js ''cat dog'' @ [0x0A, 0x0A] @ js ''dog dog'')\<rparr>)
        = [\<lparr>chunk_id = js ''u#p0'', chunk_text = js ''cat dog'',
            chunk_title = js ''T'', chunk_date = js ''2024'', chunk_url = js ''u''\<rparr>,
          \<lparr>chunk_id = js ''u#p1'', chunk_text = js ''dog dog'',
            chunk_title = js ''T'', chunk_date = js ''2024'', chunk_url = js ''u''\<rparr>]"
    by code_simp
  with th2 [THEN conjunct2, THEN conjunct2, THEN conjunct2, THEN conjunct2, THEN conjunct2, THEN conjunct2, THEN conjunct2, THEN conjunct1] have k: "loadData_items example_data
       = [\<lparr>chunk_id = js ''u#p0'', chunk_text = js ''cat dog'',
            chunk_title = js ''T'', chunk_date = js ''2024'', chunk_url = js ''u''\<rparr>,
          \<lparr>chunk_id = js ''u#p1'', chunk_text = js ''dog dog'',
            chunk_title = js ''T'', chunk_date = js ''2024'', chunk_url = js ''u''\<rparr>]"
    by (simp add: example_data_def)
  have q: "js_decimal 10 = js ''10''" by code_simp
  from th2 [THEN conjunct2, THEN conjunct2, THEN conjunct2, THEN conjunct2, THEN conjunct2, THEN conjunct2, THEN conjunct2, THEN conjunct2, THEN conjunct2, THEN conjunct2, THEN conjunct2, THEN conjunct2, THEN conjunct2, THEN conjunct2, THEN conjunct2, THEN conjunct2, THEN conjunct2, THEN conjunct2, THEN conjunct1] e(11) have o: "or_else (Some (js ''x'')) (js ''Untitled'') = js ''x''" by blast
  from p f a b d l g h k q o show ?thesis by (intro conjI) blast+
qed

text \<open>
  Claim C7. \<open>fetchJsonWithFallback\<close> tries the candidates in order. An attempt fails when
  the fetch fails, with that failure; when the response is not ok, with the status and the
  status text as the error; when the body cannot be read, with that failure; and when the
  content type does not contain \<open>application/json\<close> and the body, white space trimmed, starts
  with \<open><\<close>, with the error \<open>Received HTML instead of JSON\<close>, whatever the parser would make
  of the body. In every other case the attempt is what the JSON parser makes of the body: an
  ok response with a readable body that is declared as JSON or does not start with \<open><\<close> is
  accepted when it parses. A body that starts with \<open><\<close> and is declared as JSON is handed to
  the parser, which rejects markup; a body that starts with \<open><\<close> does so after trimming too.
  The result is the parsed body of the first candidate whose attempt succeeds, whatever the
  failed candidates before it were: with candidates \<open>A\<close> and \<open>B\<close>, where \<open>A\<close> fails and \<open>B\<close>
  succeeds, it is \<open>B\<close>'s. The call fails only when every candidate has failed, and then, for
  at least one candidate, with the failure of the last one; with no candidate at all it fails
  with \<open>All fetch attempts failed\<close>. The tests on strings are the ones of JavaScript: \<open>includes\<close>
  looks for a substring, \<open>startsWith\<close> for a prefix, and \<open>trim\<close> removes the longest runs of
  white space at both ends.
\<close>

theorem fetch_fallback:
  "(k < length paths \<and> (\<forall>j<k. isl (attempt fetch parse (paths ! j)))
      \<and> attempt fetch parse (paths ! k) = Inr data \<longrightarrow>
      fetchJsonWithFallback fetch parse paths = Inr data)
   \<and> (isl (attempt fetch parse A) \<and> attempt fetch parse B = Inr data \<longrightarrow>
        fetchJsonWithFallback fetch parse [A, B] = Inr data)
   \<and> (paths \<noteq> [] \<and> (\<forall>p\<in>set paths. isl (attempt fetch parse p)) \<longrightarrow>
        fetchJsonWithFallback fetch parse paths = attempt fetch parse (last paths))
   \<and> (fetchJsonWithFallback fetch parse paths = Inl e \<longrightarrow>
        (\<forall>p\<in>set paths. isl (attempt fetch parse p)))
   \<and> (fetch p = Inl e \<longrightarrow> attempt fetch parse p = Inl e)
   \<and> (fetch p = Inr res \<and> \<not> ok res \<longrightarrow>
        attempt fetch parse p = Inl (Error (js_decimal (status res) @ js '' '' @ statusText res)))
   \<and> (fetch p = Inr res \<and> ok res \<and> body_text res = Inr t \<and> starts_with (trim t) (js ''<'')
        \<and> (\<forall>t. starts_with (trim t) (js ''<'') \<longrightarrow> isl (parse t)) \<longrightarrow>
        isl (attempt fetch parse p))
   \<and> (starts_with t (js ''<'') \<longrightarrow> starts_with (trim t) (js ''<''))
   \<and> (attempt fetch parse p = Inr data \<longrightarrow>
        (\<exists>res t. fetch p = Inr res \<and> ok res \<and> body_text res = Inr t \<and> parse t = Inr data))
   \<and> (fetch p = Inr res \<and> ok res \<and> body_text res = Inl e \<longrightarrow> attempt fetch parse p = Inl e)
   \<and> (fetch p = Inr res \<and> ok res \<and> body_text res = Inr t
        \<and> \<not> includes_str (case content_type res of None \<Rightarrow> [] | Some c \<Rightarrow> c)
              (js ''application/json'')
        \<and> starts_with (trim t) (js ''<'') \<longrightarrow>
        attempt fetch parse p = Inl (Error (js ''Received HTML instead of JSON'')))
   \<and> (fetch p = Inr res \<and> ok res \<and> body_text res = Inr t
        \<and> (includes_str (case content_type res of None \<Rightarrow> [] | Some c \<Rightarrow> c)
              (js ''application/json'')
            \<or> \<not> starts_with (trim t) (js ''<'')) \<longrightarrow>
        attempt fetch parse p = parse t)
   \<and> fetchJsonWithFallback fetch parse [] = Inl (Error (js ''All fetch attempts failed''))
   \<and> (includes_str s sub \<longleftrightarrow> (\<exists>a b. s = a @ sub @ b))
   \<and> (starts_with s sub \<longleftrightarrow> (\<exists>b. s = sub @ b))
   \<and> (\<exists>a b. t = a @ trim t @ b \<and> (\<forall>c\<in>set a. is_js_space c) \<and> (\<forall>c\<in>set b. is_js_space c))
   \<and> (trim t \<noteq> [] \<longrightarrow> \<not> is_js_space (hd (trim t)) \<and> \<not> is_js_space (last (trim t)))"
proof (intro conjI impI)
  assume "k < length paths \<and> (\<forall>j<k. isl (attempt fetch parse (paths ! j)))
      \<and> attempt fetch parse (paths ! k) = Inr data"
  then show "fetchJsonWithFallback fetch parse paths = Inr data"
    unfolding fetchJsonWithFallback_def by (intro fetch_loop_first_success [of k]) simp_all
next
  assume "isl (attempt fetch parse A) \<and> attempt fetch parse B = Inr data"
  then show "fetchJsonWithFallback fetch parse [A, B] = Inr data"
    unfolding fetchJsonWithFallback_def
    by (intro fetch_loop_first_success [of 1]) (simp_all add: less_Suc_eq)
next
  assume "paths \<noteq> [] \<and> (\<forall>p\<in>set paths. isl (attempt fetch parse p))"
  then show "fetchJsonWithFallback fetch parse paths = attempt fetch parse (last paths)"
    by (simp add: fetchJsonWithFallback_def fetch_loop_all_failed)
next
  assume "fetchJsonWithFallback fetch parse paths = Inl e"
  then show "\<forall>p\<in>set paths. isl (attempt fetch parse p)"
    unfolding fetchJsonWithFallback_def by (rule fetch_loop_failure)
next
  assume "fetch p = Inl e"
  then show "attempt fetch parse p = Inl e" by (simp add: attempt_def)
next
  assume "fetch p = Inr res \<and> \<not> ok res"
  then show "attempt fetch parse p = Inl (Error (js_decimal (status res) @ js '' '' @ statusText res))"
    by (simp add: attempt_def)
next
  assume "fetch p = Inr res \<and> ok res \<and> body_text res = Inr t \<and> starts_with (trim t) (js ''<'')
        \<and> (\<forall>t. starts_with (trim t) (js ''<'') \<longrightarrow> isl (parse t))"
  then show "isl (attempt fetch parse p)"
    by (intro attempt_markup [of fetch p res t]) simp_all
next
  assume "starts_with t (js ''<'')"
  then show "starts_with (trim t) (js ''<'')" by (rule trim_markup)
next
  assume "attempt fetch parse p = Inr data"
  then show "\<exists>res t. fetch p = Inr res \<and> ok res \<and> body_text res = Inr t \<and> parse t = Inr data"
    by (rule attempt_success)
next
  assume "fetch p = Inr res \<and> ok res \<and> body_text res = Inl e"
  then show "attempt fetch parse p = Inl e"
    by (intro attempt_body_failed [of fetch p res]) simp_all
next
  assume "fetch p = Inr res \<and> ok res \<and> body_text res = Inr t
        \<and> \<not> includes_str (case content_type res of None \<Rightarrow> [] | Some c \<Rightarrow> c)
              (js ''application/json'')
        \<and> starts_with (trim t) (js ''<'')"
  then show "attempt fetch parse p = Inl (Error (js ''Received HTML instead of JSON''))"
    by (intro attempt_html [of fetch p res t]) simp_all
next
  assume "fetch p = Inr res \<and> ok res \<and> body_text res = Inr t
        \<and> (includes_str (case content_type res of None \<Rightarrow> [] | Some c \<Rightarrow> c)
              (js ''application/json'')
            \<or> \<not> starts_with (trim t) (js ''<''))"
  then show "attempt fetch parse p = parse t"
    by (intro attempt_parsed [of fetch p res t]) simp_all
next
  show "fetchJsonWithFallback fetch parse [] = Inl (Error (js ''All fetch attempts failed''))"
    by (simp add: fetchJsonWithFallback_def)
next
  show "includes_str s sub \<longleftrightarrow> (\<exists>a b. s = a @ sub @ b)" by (rule includes_str_iff)
next
  show "starts_with s sub \<longleftrightarrow> (\<exists>b. s = sub @ b)" by (rule starts_with_iff)
next
  show "\<exists>a b. t = a @ trim t @ b \<and> (\<forall>c\<in>set a. is_js_space c) \<and> (\<forall>c\<in>set b. is_js_space c)"
    by (rule trim_decomposition)
next
  assume "trim t \<noteq> []"
  with trim_ends [of t] show "\<not> is_js_space (hd (trim t))" by simp
next
  assume "trim t \<noteq> []"
  with trim_ends [of t] show "\<not> is_js_space (last (trim t))" by simp
qed

theorem fetch_fallback_witness:
  "attempt example_fetch example_parse (js ''./real_transcriptions.json'')
     = Inl (Error (js ''404 Not Found''))
   \<and> attempt example_fetch example_parse (js ''../real_transcriptions.json'') = Inr example_data
   \<and> fetchJsonWithFallback example_fetch example_parse
         [js ''./real_transcriptions.json'', js ''../real_transcriptions.json''] = Inr example_data
   \<and> isl (attempt example_fetch example_parse (js ''index.html''))
   \<and> fetchJsonWithFallback example_fetch example_parse
         [js ''./real_transcriptions.json'', js ''index.html'', js ''x''] = Inl TypeError
   \<and> attempt example_fetch example_parse (js ''index.html'')
       = Inl (Error (js ''Received HTML instead of JSON''))
   \<and> attempt example_fetch example_parse (js ''copy.txt'') = Inr example_data
   \<and> attempt example_fetch example_parse (js ''cut.json'') = Inl TypeError
   \<and> fetchJsonWithFallback example_fetch example_parse
         [js ''cut.json'', js ''index.html'', js ''copy.txt'', js ''x''] = Inr example_data
   \<and> attempt example_fetch example_parse (js ''page.json'') = Inl SyntaxError
   \<and> isl (attempt example_fetch example_parse (js ''page.json''))
   \<and> trim (js '' <html>'') = js ''<html>''
   \<and> trim ([0xFEFF, 0x0A, 0x09, 0x20] @ js ''<a> b'' @ [0x0D, 0x2028, 0xA0, 0x3000]) = js ''<a> b''
   \<and> includes_str (js ''text/json; application/json'') (js ''application/json'')
   \<and> \<not> includes_str (js ''text/html'') (js ''application/json'')"
proof -
  note a = example_attempts
  note r = example_responses
  note th = fetch_fallback [of 1 "[js ''./real_transcriptions.json'', js ''../real_transcriptions.json'']"
      example_fetch example_parse example_data
      "js ''./real_transcriptions.json''" "js ''../real_transcriptions.json''"
      TypeError "js ''x''" _ "js '' <html>''"]
  have "isl (attempt example_fetch example_parse (js ''./real_transcriptions.json''))
        \<and> attempt example_fetch example_parse (js ''../real_transcriptions.json'') = Inr example_data"
    by (simp add: a)
  with th [THEN conjunct2, THEN conjunct1]
  have b: "fetchJsonWithFallback example_fetch example_parse
         [js ''./real_transcriptions.json'', js ''../real_transcriptions.json''] = Inr example_data"
    by blast
  note th2 = fetch_fallback [of 0 "[js ''./real_transcriptions.json'', js ''index.html'', js ''x'']"
      example_fetch example_parse example_data
      "js ''./real_transcriptions.json''" "js ''../real_transcriptions.json''"
      TypeError "js ''index.html''"
      "\<lparr>ok = True, status = 200, statusText = js ''OK'',
        content_type = Some (js ''text/html''), body_text = Inr (js '' <html>'')\<rparr>"
      "js '' <html>''"]
  have ph: "\<forall>t. starts_with (trim t) (js ''<'') \<longrightarrow> isl (example_parse t)"
    using r(5,6) by (auto simp: example_parse_def)
  with th2 [THEN conjunct2, THEN conjunct2, THEN conjunct2, THEN conjunct2, THEN conjunct2, THEN conjunct2, THEN conjunct1] r(1,2) have c: "isl (attempt example_fetch example_parse (js ''index.html''))"
    by simp
  have "[js ''./real_transcriptions.json'', js ''index.html'', js ''x''] \<noteq> []
        \<and> (\<forall>p\<in>set [js ''./real_transcriptions.json'', js ''index.html'', js ''x''].
              isl (attempt example_fetch example_parse p))"
    by (simp add: a)
  with th2 [THEN conjunct2, THEN conjunct2, THEN conjunct1] have "fetchJsonWithFallback example_fetch example_parse
         [js ''./real_transcriptions.json'', js ''index.html'', js ''x'']
       = attempt example_fetch example_parse
           (last [js ''./real_transcriptions.json'', js ''index.html'', js ''x''])"
    by blast
  then have d: "fetchJsonWithFallback example_fetch example_parse
         [js ''./real_transcriptions.json'', js ''index.html'', js ''x''] = Inl TypeError"
    by (simp add: a)
  have "example_fetch (js ''index.html'')
          = Inr \<lparr>ok = True, status = 200, statusText = js ''OK'',
                 content_type = Some (js ''text/html''), body_text = Inr (js '' <html>'')\<rparr>
        \<and> ok \<lparr>ok = True, status = 200, statusText = js ''OK'',
                 content_type = Some (js ''text/html''), body_text = Inr (js '' <html>'')\<rparr>
        \<and> body_text \<lparr>ok = True, status = 200, statusText = js ''OK'',
                 content_type = Some (js ''text/html''), body_text = Inr (js '' <html>'')\<rparr>
            = Inr (js '' <html>'')
        \<and> \<not> includes_str
              (case content_type \<lparr>ok = True, status = 200, statusText = js ''OK'',
                 content_type = Some (js ''text/html''), body_text = Inr (js '' <html>'')\<rparr>
               of None \<Rightarrow> [] | Some c \<Rightarrow> c) (js ''application/json'')
        \<and> starts_with (trim (js '' <html>'')) (js ''<'')"
    using r(1,2,3) by simp
  with th2 [THEN conjunct2, THEN conjunct2, THEN conjunct2, THEN conjunct2, THEN conjunct2, THEN conjunct2, THEN conjunct2, THEN conjunct2, THEN conjunct2, THEN conjunct2, THEN conjunct1] have f: "attempt example_fetch example_parse (js ''index.html'')
       = Inl (Error (js ''Received HTML instead of JSON''))"
    by blast
  note th3 = fetch_fallback [of 2 "[js ''cut.json'', js ''index.html'', js ''copy.txt'', js ''x'']"
      example_fetch example_parse example_data
      "js ''./real_transcriptions.json''" "js ''../real_transcriptions.json''"
      TypeError "js ''copy.txt''"
      "\<lparr>ok = True, status = 200, statusText = js ''OK'',
        content_type = None, body_text = Inr example_body\<rparr>"
      example_body]
  have "example_fetch (js ''copy.txt'')
          = Inr \<lparr>ok = True, status = 200, statusText = js ''OK'',
                 content_type = None, body_text = Inr example_body\<rparr>
        \<and> ok \<lparr>ok = True, status = 200, statusText = js ''OK'',
                 content_type = None, body_text = Inr example_body\<rparr>
        \<and> body_text \<lparr>ok = True, status = 200, statusText = js ''OK'',
                 content_type = None, body_text = Inr example_body\<rparr> = Inr example_body
        \<and> (includes_str
              (case content_type \<lparr>ok = True, status = 200, statusText = js ''OK'',
                 content_type = None, body_text = Inr example_body\<rparr>
               of None \<Rightarrow> [] | Some c \<Rightarrow> c) (js ''application/json'')
            \<or> \<not> starts_with (trim example_body) (js ''<''))"
    using r(4,5,6) by simp
  with th3 [THEN conjunct2, THEN conjunct2, THEN conjunct2, THEN conjunct2, THEN conjunct2, THEN conjunct2, THEN conjunct2, THEN conjunct2, THEN conjunct2, THEN conjunct2, THEN conjunct2, THEN conjunct1]
  have "attempt example_fetch example_parse (js ''copy.txt'') = example_parse example_body"
    by blast
  with r(7) have g: "attempt example_fetch example_parse (js ''copy.txt'') = Inr example_data"
    by simp
  note th4 = fetch_fallback [of 0 "[]" example_fetch example_parse example_data
      "js ''./real_transcriptions.json''" "js ''../real_transcriptions.json''"
      TypeError "js ''cut.json''"
      "\<lparr>ok = True, status = 200, statusText = js ''OK'',
        content_type = Some (js ''application/json''), body_text = Inl TypeError\<rparr>"
      "[]"]
  have "example_fetch (js ''cut.json'')
          = Inr \<lparr>ok = True, status = 200, statusText = js ''OK'',
                 content_type = Some (js ''application/json''), body_text = Inl TypeError\<rparr>
        \<and> ok \<lparr>ok = True, status = 200, statusText = js ''OK'',
                 content_type = Some (js ''application/json''), body_text = Inl TypeError\<rparr>
        \<and> body_text \<lparr>ok = True, status = 200, statusText = js ''OK'',
                 content_type = Some (js ''application/json''), body_text = Inl TypeError\<rparr>
            = Inl TypeError"
    using r(8) by simp
  with th4 [THEN conjunct2, THEN conjunct2, THEN conjunct2, THEN conjunct2, THEN conjunct2, THEN conjunct2, THEN conjunct2, THEN conjunct2, THEN conjunct2, THEN conjunct1] have h: "attempt example_fetch example_parse (js ''cut.json'') = Inl TypeError"
    by blast
  have "2 < length [js ''cut.json'', js ''index.html'', js ''copy.txt'', js ''x'']
        \<and> (\<forall>j<2. isl (attempt example_fetch example_parse
                        ([js ''cut.json'', js ''index.html'', js ''copy.txt'', js ''x''] ! j)))
        \<and> attempt example_fetch example_parse
            ([js ''cut.json'', js ''index.html'', js ''copy.txt'', js ''x''] ! 2) = Inr example_data"
    using f g h by (simp add: less_Suc_eq numeral_2_eq_2)
  with th3 [THEN conjunct1] have i: "fetchJsonWithFallback example_fetch example_parse
         [js ''cut.json'', js ''index.html'', js ''copy.txt'', js ''x''] = Inr example_data"
    by blast
  note th5 = fetch_fallback [of 0 "[]" example_fetch example_parse example_data
      "js ''./real_transcriptions.json''" "js ''../real_transcriptions.json''"
      TypeError "js ''page.json''"
      "\<lparr>ok = True, status = 200, statusText = js ''OK'',
        content_type = Some (js ''application/json''), body_text = Inr (js ''<html>'')\<rparr>"
      "js ''<html>''"]
  have pj: "example_fetch (js ''page.json'')
          = Inr \<lparr>ok = True, status = 200, statusText = js ''OK'',
                 content_type = Some (js ''application/json''), body_text = Inr (js ''<html>'')\<rparr>
        \<and> ok \<lparr>ok = True, status = 200, statusText = js ''OK'',
                 content_type = Some (js ''application/json''), body_text = Inr (js ''<html>'')\<rparr>
        \<and> body_text \<lparr>ok = True, status = 200, statusText = js ''OK'',
                 content_type = Some (js ''application/json''), body_text = Inr (js ''<html>'')\<rparr>
            = Inr (js ''<html>'')"
    using r(11) by simp
  then have "example_fetch (js ''page.json'')
          = Inr \<lparr>ok = True, status = 200, statusText = js ''OK'',
                 content_type = Some (js ''application/json''), body_text = Inr (js ''<html>'')\<rparr>
        \<and> ok \<lparr>ok = True, status = 200, statusText = js ''OK'',
                 content_type = Some (js ''application/json''), body_text = Inr (js ''<html>'')\<rparr>
        \<and> body_text \<lparr>ok = True, status = 200, statusText = js ''OK'',
                 content_type = Some (js ''application/json''), body_text = Inr (js ''<html>'')\<rparr>
            = Inr (js ''<html>'')
        \<and> (includes_str
              (case content_type \<lparr>ok = True, status = 200, statusText = js ''OK'',
                 content_type = Some (js ''application/json''), body_text = Inr (js ''<html>'')\<rparr>
               of None \<Rightarrow> [] | Some c \<Rightarrow> c) (js ''application/json'')
            \<or> \<not> starts_with (trim (js ''<html>'')) (js ''<''))"
    using r(12) by simp
  with th5 [THEN conjunct2, THEN conjunct2, THEN conjunct2, THEN conjunct2, THEN conjunct2, THEN conjunct2, THEN conjunct2, THEN conjunct2, THEN conjunct2, THEN conjunct2, THEN conjunct2, THEN conjunct1]
  have "attempt example_fetch example_parse (js ''page.json'') = example_parse (js ''<html>'')"
    by blast
  with r(14) have j: "attempt example_fetch example_parse (js ''page.json'') = Inl SyntaxError"
    by simp
  from pj r(13) ph
  have "example_fetch (js ''page.json'')
          = Inr \<lparr>ok = True, status = 200, statusText = js ''OK'',
                 content_type = Some (js ''application/json''), body_text = Inr (js ''<html>'')\<rparr>
        \<and> ok \<lparr>ok = True, status = 200, statusText = js ''OK'',
                 content_type = Some (js ''application/json''), body_text = Inr (js ''<html>'')\<rparr>
        \<and> body_text \<lparr>ok = True, status = 200, statusText = js ''OK'',
                 content_type = Some (js ''application/json''), body_text = Inr (js ''<html>'')\<rparr>
            = Inr (js ''<html>'')
        \<and> starts_with (trim (js ''<html>'')) (js ''<'')
        \<and> (\<forall>t. starts_with (trim t) (js ''<'') \<longrightarrow> isl (example_parse t))"
    by simp
  with th5 [THEN conjunct2, THEN conjunct2, THEN conjunct2, THEN conjunct2, THEN conjunct2, THEN conjunct2, THEN conjunct1]
  have k: "isl (attempt example_fetch example_parse (js ''page.json''))"
    by blast
  from a(1,2) b c d f g h i j k r(9,15,10,3) show ?thesis by (intro conjI)
qed

text \<open>
  Claim C8. \<open>tokenize\<close> is a function of its input, defined for every string. It lowers
  the case of the text and replaces every code point of category P or S by one space
  (read by code points, the replaced text is the text with these code points mapped to the
  space). Its tokens are the words that a scan of the replaced text finds between white
  space: they are not empty, hold no white space, and together they are the replaced text
  without its white space, so order and repetitions are kept. With Unicode data that is
  right on ASCII, \<open>Hello, World!\<close> gives the tokens \<open>hello\<close> and \<open>world\<close>, and the empty
  string gives none.
\<close>

theorem tokenize_spec:
  "tokenize U text = scan_words [] (replace_ps U (toLowerCase U text))
   \<and> code_points (replace_ps U s)
       = map (\<lambda>cp. if punct_or_symbol U cp then 0x20 else cp) (code_points s)
   \<and> (\<forall>w\<in>set (tokenize U text). w \<noteq> [] \<and> (\<forall>c\<in>set w. \<not> is_js_space c))
   \<and> concat (tokenize U text) = filter (\<lambda>c. \<not> is_js_space c) (replace_ps U (toLowerCase U text))
   \<and> (agrees_on_ascii U \<longrightarrow>
         toLowerCase U (js ''Hello, World!'') = js ''hello, world!''
       \<and> tokenize U (js ''Hello, World!'') = [js ''hello'', js ''world'']
       \<and> tokenize U (js '''') = [])"
proof (intro conjI impI ballI)
  show "tokenize U text = scan_words [] (replace_ps U (toLowerCase U text))"
    using split_runs_scan [of "[]" "replace_ps U (toLowerCase U text)"]
    by (simp add: tokenize_def)
  show "code_points (replace_ps U s)
       = map (\<lambda>cp. if punct_or_symbol U cp then 0x20 else cp) (code_points s)"
    by (rule code_points_replace_ps)
  show "concat (tokenize U text) = filter (\<lambda>c. \<not> is_js_space c) (replace_ps U (toLowerCase U text))"
    by (simp add: tokenize_def concat_filter_nonempty concat_split_runs)
next
  fix w assume "w \<in> set (tokenize U text)"
  then show "w \<noteq> []" by (simp add: tokenize_def)
next
  fix w c assume "w \<in> set (tokenize U text)" "c \<in> set w"
  then show "\<not> is_js_space c"
    using split_runs_pieces [of is_js_space "replace_ps U (toLowerCase U text)"]
    by (auto simp: tokenize_def)
next
  assume a: "agrees_on_ascii U"
  then show "toLowerCase U (js ''Hello, World!'') = js ''hello, world!''"
    by (simp add: agrees_on_ascii_def hello_world)
  from a show "tokenize U (js ''Hello, World!'') = [js ''hello'', js ''world'']"
    by (simp add: tokenize_ascii hello_world)
  from a show "tokenize U (js '''') = []"
    by (simp add: tokenize_ascii hello_world)
qed

theorem tokenize_spec_witness:
  "agrees_on_ascii ascii_tables
   \<and> tokenize ascii_tables (js ''Hello, World!'') = [js ''hello'', js ''world'']
   \<and> js ''hello'' \<in> set (tokenize ascii_tables (js ''Hello, World!''))
   \<and> js ''hello'' \<noteq> []
   \<and> 0x68 \<in> set (js ''hello'') \<and> \<not> is_js_space 0x68
   \<and> tokenize ascii_tables (js []) = []"
proof -
  from tokenize_spec [of ascii_tables "js ''Hello, World!''"] ascii_tables_agree
  have t: "tokenize ascii_tables (js ''Hello, World!'') = [js ''hello'', js ''world'']"
    and e: "tokenize ascii_tables (js []) = []"
    and n: "\<forall>w\<in>set (tokenize ascii_tables (js ''Hello, World!'')).
              w \<noteq> [] \<and> (\<forall>c\<in>set w. \<not> is_js_space c)"
    by blast+
  from t have m: "js ''hello'' \<in> set (tokenize ascii_tables (js ''Hello, World!''))"
    by simp
  have h: "0x68 \<in> set (js ''hello'')" by code_simp
  from n m have "js ''hello'' \<noteq> []" and "\<forall>c\<in>set (js ''hello''). \<not> is_js_space c"
    by blast+
  with h have "js ''hello'' \<noteq> []" and "\<not> is_js_space 0x68" by blast+
  with t e m h ascii_tables_agree show ?thesis by (intro conjI)
qed

text \<open>
  Claim C9. While \<open>index\<close> is \<open>null\<close>, as it is at the start, the submit handler answers a
  non-blank query with the query and the message that the index is not built, empties the
  input field, calls \<open>score\<close> not at all and keeps nothing else of the query: \<open>docs\<close> and
  \<open>index\<close> are as before. Blank input is no query: the handler does nothing with it. In every state that the page can reach, each call of \<open>score\<close> that
  the handler makes has the trimmed query, the index that \<open>buildIndex\<close> built for the loaded
  chunks, and 8 as its arguments.
\<close>

theorem query_before_index:
  "(index st = None \<and> trim (queryInput st) \<noteq> [] \<longrightarrow>
      submit U relay st useLlm =
        (addMsg ((addMsg st User (Plain (trim (queryInput st))) None)\<lparr>queryInput := []\<rparr>)
           Bot IndexNotBuilt None, []))
   \<and> (trim (queryInput st) = [] \<longrightarrow> submit U relay st useLlm = (st, []))
   \<and> index (fst (submit U relay st useLlm)) = index st
   \<and> docs (fst (submit U relay st useLlm)) = docs st
   \<and> index initial = None
   \<and> (reachable U st \<longrightarrow>
        (\<forall>c\<in>set (snd (submit U relay st useLlm)).
           c = (trim (queryInput st), buildIndex U (docs st), 8)
           \<and> index st = Some (buildIndex U (docs st))))"
proof (intro conjI impI ballI)
  assume "index st = None \<and> trim (queryInput st) \<noteq> []"
  then show "submit U relay st useLlm =
        (addMsg ((addMsg st User (Plain (trim (queryInput st))) None)\<lparr>queryInput := []\<rparr>)
           Bot IndexNotBuilt None, [])"
    by (simp add: submit_not_ready)
next
  assume "trim (queryInput st) = []"
  then show "submit U relay st useLlm = (st, [])" by (rule submit_blank)
next
  show "index (fst (submit U relay st useLlm)) = index st" by (rule submit_keeps)
  show "docs (fst (submit U relay st useLlm)) = docs st" by (rule submit_keeps)
  show "index initial = None" by (simp add: initial_def)
next
  fix c assume r: "reachable U st" and c: "c \<in> set (snd (submit U relay st useLlm))"
  from submit_calls [OF c] obtain idx
    where i: "index st = Some idx" "c = (trim (queryInput st), idx, 8)"
    by blast
  with reachable_index [OF r] have "idx = buildIndex U (docs st)" by simp
  with i show "c = (trim (queryInput st), buildIndex U (docs st), 8)" by simp
  from i \<open>idx = buildIndex U (docs st)\<close> show "index st = Some (buildIndex U (docs st))" by simp
qed

theorem query_before_index_witness:
  "trim (queryInput initial) = []
   \<and> submit ascii_tables (\<lambda>q c. Inr None) initial False = (initial, [])
   \<and> index (initial\<lparr>queryInput := js '' dog ''\<rparr>) = None
   \<and> trim (queryInput (initial\<lparr>queryInput := js '' dog ''\<rparr>)) \<noteq> []
   \<and> submit ascii_tables (\<lambda>q c. Inr None) (initial\<lparr>queryInput := js '' dog ''\<rparr>) False =
        (addMsg ((addMsg (initial\<lparr>queryInput := js '' dog ''\<rparr>) User
                    (Plain (trim (queryInput (initial\<lparr>queryInput := js '' dog ''\<rparr>)))) None)
                 \<lparr>queryInput := []\<rparr>)
           Bot IndexNotBuilt None, [])
   \<and> reachable ascii_tables
        ((loadData ascii_tables example_fetch example_parse initial)\<lparr>queryInput := js '' dog ''\<rparr>)
   \<and> snd (submit ascii_tables (\<lambda>q c. Inr None)
            ((loadData ascii_tables example_fetch example_parse initial)\<lparr>queryInput := js '' dog ''\<rparr>)
            False)
       = [(trim (js '' dog ''), buildIndex ascii_tables (loadData_items example_data), 8)]
   \<and> index ((loadData ascii_tables example_fetch example_parse initial)\<lparr>queryInput := js '' dog ''\<rparr>)
       = Some (buildIndex ascii_tables (loadData_items example_data))"
proof -
  let ?s0 = "initial\<lparr>queryInput := js '' dog ''\<rparr>"
  let ?st = "(loadData ascii_tables example_fetch example_parse initial)\<lparr>queryInput := js '' dog ''\<rparr>"
  let ?calls = "snd (submit ascii_tables (\<lambda>q c. Inr None) ?st False)"
  have t: "trim (queryInput ?s0) \<noteq> []" "trim (queryInput ?st) \<noteq> []"
    by (simp_all add: trim_dog)
  have i: "index ?s0 = None" by (simp add: initial_def)
  from query_before_index [of ?s0 ascii_tables "\<lambda>q c. Inr None" False] t(1) i
  have a: "submit ascii_tables (\<lambda>q c. Inr None) ?s0 False =
        (addMsg ((addMsg ?s0 User (Plain (trim (queryInput ?s0))) None)\<lparr>queryInput := []\<rparr>)
           Bot IndexNotBuilt None, [])"
    by blast
  have r: "reachable ascii_tables ?st"
    by (intro reachable.typed reachable.loaded reachable.start)
  note l = loadData_success [OF example_load, of ascii_tables initial]
  from l have x: "index ?st = Some (buildIndex ascii_tables (loadData_items example_data))"
    and d: "docs ?st = loadData_items example_data"
    by simp_all
  from x t(2) have "?calls = [(trim (queryInput ?st), buildIndex ascii_tables (loadData_items example_data), 8)]"
    by (rule submit_ready)
  then have c: "?calls = [(trim (js '' dog ''), buildIndex ascii_tables (loadData_items example_data), 8)]"
    by simp
  then have m: "(trim (js '' dog ''), buildIndex ascii_tables (loadData_items example_data), 8) \<in> set ?calls"
    by simp
  from query_before_index [of ?st ascii_tables "\<lambda>q c. Inr None" False] r m
  have "index ?st = Some (buildIndex ascii_tables (docs ?st))"
    by blast
  with d have "index ?st = Some (buildIndex ascii_tables (loadData_items example_data))"
    by simp
  moreover have e: "trim (queryInput initial) = []"
    by (simp add: initial_def trim_def)
  moreover from query_before_index [of initial ascii_tables "\<lambda>q c. Inr None" False] e
  have "submit ascii_tables (\<lambda>q c. Inr None) initial False = (initial, [])"
    by blast
  ultimately show ?thesis using t(1) i a r c by (intro conjI)
qed

end
